theory Spec2Isabelle
  imports
    Complex_Main
    "HOL-Library.Log_Nat"
    "HOL-Library.List_Lexorder"
    "HOL-Library.Product_Lexorder"
    "HOL-Library.Multiset"
begin

section \<open>Quasar: circuits of 1- and 2-qubit gates and their state-vector simulation\<close>

text \<open>
  A shallow embedding of \<^verbatim>\<open>quasar/quasar.py\<close>. Python integers are \<open>int\<close>,
  \<^verbatim>\<open>np.complex128\<close> amplitudes are exact \<open>complex\<close> numbers, a one-dimensional array is
  a list, a two-dimensional array is the list of its rows, an \<^verbatim>\<open>OrderedDict\<close> is an
  association list in insertion order, and every \<^verbatim>\<open>raise\<close> is a value of type
  \<open>error\<close>.
\<close>

subsection \<open>Errors and arrays\<close>

datatype error =
    RuntimeError string
  | KeyError
  | IndexError
  | TypeError
  | ValueError

type_synonym cvec = "complex list"
type_synonym cmat = "complex list list"
type_synonym gparams = "(string \<times> real) list"

text \<open>\<^verbatim>\<open>U.shape == (m, n)\<close> for a two-dimensional array.\<close>

definition has_shape :: "cmat \<Rightarrow> nat \<Rightarrow> nat \<Rightarrow> bool" where
  "has_shape U m n = (length U = m \<and> list_all (\<lambda>r. length r = n) U)"

subsection \<open>Class Gate\<close>

record gate =
  gate_N :: int
  gate_Ufun :: "gparams \<Rightarrow> cmat"
  gate_params :: gparams
  gate_name :: string
  gate_ascii_symbols :: "string list"

text \<open>The property \<^verbatim>\<open>Gate.U\<close>: the generator applied to the current parameters.\<close>

definition gate_U :: "gate \<Rightarrow> cmat" where
  "gate_U g = gate_Ufun g (gate_params g)"

text \<open>
  \<^verbatim>\<open>Gate.__init__\<close> with its validity checks (the \<^verbatim>\<open>isinstance\<close> checks are what the
  types of the record say).
\<close>

definition Gate_init ::
  "int \<Rightarrow> (gparams \<Rightarrow> cmat) \<Rightarrow> gparams \<Rightarrow> string \<Rightarrow> string list \<Rightarrow> error + gate" where
  "Gate_init n ufun ps nm syms =
     (if n \<le> 0 then Inl (RuntimeError ''N <= 0'')
      else if \<not> has_shape (ufun ps) (2 ^ nat n) (2 ^ nat n)
        then Inl (RuntimeError ''U must be shape (2**N,)*2'')
      else if int (length syms) \<noteq> n then Inl (RuntimeError ''len(ascii_symbols) != N'')
      else Inr \<lparr>gate_N = n, gate_Ufun = ufun, gate_params = ps, gate_name = nm,
                gate_ascii_symbols = syms\<rparr>)"

text \<open>\<^verbatim>\<open>Gate.copy\<close>: a new Gate from the same fields (the parameters are a value here).\<close>

definition gate_copy :: "gate \<Rightarrow> error + gate" where
  "gate_copy g =
     Gate_init (gate_N g) (gate_Ufun g) (gate_params g) (gate_name g) (gate_ascii_symbols g)"

subsection \<open>Class Circuit: construction and gate addition\<close>

type_synonym gkey = "int \<times> int list"

record circuit =
  circ_N :: int
  gates :: "(gkey \<times> gate) list"
  Ts :: "int list"
  TAs :: "(int \<times> int) set"

definition Circuit_init :: "int \<Rightarrow> error + circuit" where
  "Circuit_init n =
     (if n \<le> 0 then Inl (RuntimeError ''N <= 0'')
      else Inr \<lparr>circ_N = n, gates = [], Ts = [], TAs = {}\<rparr>)"

text \<open>\<^verbatim>\<open>nmoment\<close>: \<^verbatim>\<open>self.Ts[-1] + 1 if len(self.Ts) else 0\<close>.\<close>

definition nmoment :: "circuit \<Rightarrow> int" where
  "nmoment c = (if Ts c = [] then 0 else last (Ts c) + 1)"

definition ngate :: "circuit \<Rightarrow> nat" where
  "ngate c = length (gates c)"

text \<open>The \<^verbatim>\<open>key\<close> argument of \<^verbatim>\<open>add_gate\<close> is an int or a tuple of ints.\<close>

datatype qkey = KInt int | KTuple "int list"

fun key_tuple :: "qkey \<Rightarrow> int list" where
  "key_tuple (KInt a) = [a]"
| "key_tuple (KTuple k) = k"

text \<open>The loop that checks that the requested circuit locations are open.\<close>

fun check_open :: "circuit \<Rightarrow> int \<Rightarrow> int list \<Rightarrow> error option" where
  "check_open c T [] = None"
| "check_open c T (A # rest) =
     (if (T, A) \<in> TAs c then Some (RuntimeError ''circuit location is already occupied'')
      else if A \<ge> circ_N c then Some (RuntimeError ''No qubit location'')
      else check_open c T rest)"

text \<open>\<^verbatim>\<open>d[k] = v\<close> on an \<^verbatim>\<open>OrderedDict\<close>: an existing key keeps its position.\<close>

definition dict_set :: "('k \<times> 'v) list \<Rightarrow> 'k \<Rightarrow> 'v \<Rightarrow> ('k \<times> 'v) list" where
  "dict_set d k v =
     (if k \<in> set (map fst d) then map (\<lambda>(k', v'). if k' = k then (k', v) else (k', v')) d
      else d @ [(k, v)])"

text \<open>
  \<^verbatim>\<open>add_gate\<close> mutates the circuit or raises. The model returns the raised error (if any)
  together with the state of the circuit after the call.
\<close>

definition add_gate :: "circuit \<Rightarrow> int \<Rightarrow> qkey \<Rightarrow> gate \<Rightarrow> error option \<times> circuit" where
  "add_gate c T key g =
     (let key2 = key_tuple key in
      if T < 0 then (Some (RuntimeError ''Negative T''), c)
      else if int (length key2) \<noteq> gate_N g
        then (Some (RuntimeError ''wrong number of key entries for gate''), c)
      else (case check_open c T key2 of
              Some e \<Rightarrow> (Some e, c)
            | None \<Rightarrow>
                (None,
                 c\<lparr>gates := dict_set (gates c) (T, key2) g,
                   TAs := foldl (\<lambda>s A. insert (T, A) s) (TAs c) key2,
                   Ts := (if T \<in> set (Ts c) then Ts c else sort (Ts c @ [T]))\<rparr>)))"

text \<open>A call of \<^verbatim>\<open>add_gate\<close> on a local circuit: the exception propagates.\<close>

definition add_gate_r :: "circuit \<Rightarrow> int \<Rightarrow> int list \<Rightarrow> gate \<Rightarrow> error + circuit" where
  "add_gate_r c T key2 g =
     (case add_gate c T (KTuple key2) g of (Some e, _) \<Rightarrow> Inl e | (None, c') \<Rightarrow> Inr c')"

subsection \<open>The constant matrices and library gates used below\<close>

definition Matrix_I :: cmat where
  "Matrix_I = [[1, 0], [0, 1]]"

definition Matrix_X :: cmat where
  "Matrix_X = [[0, 1], [1, 0]]"

text \<open>\<^verbatim>\<open>H = 1.0 / np.sqrt(2.0) * np.array([[1.0, 1.0], [1.0, -1.0]])\<close>\<close>

definition Matrix_H :: cmat where
  "Matrix_H = map (map (\<lambda>x. complex_of_real (1 / sqrt 2) * x)) [[1, 1], [1, - 1]]"

definition Matrix_CX :: cmat where
  "Matrix_CX = [[1, 0, 0, 0], [0, 1, 0, 0], [0, 0, 0, 1], [0, 0, 1, 0]]"

definition Gate_X :: gate where
  "Gate_X = \<lparr>gate_N = 1, gate_Ufun = (\<lambda>ps. Matrix_X), gate_params = [],
              gate_name = ''X'', gate_ascii_symbols = [''X'']\<rparr>"

definition Gate_H :: gate where
  "Gate_H = \<lparr>gate_N = 1, gate_Ufun = (\<lambda>ps. Matrix_H), gate_params = [],
              gate_name = ''H'', gate_ascii_symbols = [''H'']\<rparr>"

definition Gate_CNOT :: gate where
  "Gate_CNOT = \<lparr>gate_N = 2, gate_Ufun = (\<lambda>ps. Matrix_CX), gate_params = [],
                 gate_name = ''CNOT'', gate_ascii_symbols = [''@'', ''X'']\<rparr>"

text \<open>
  \<^verbatim>\<open>Gate.Ry(theta)\<close>. The generator reads \<^verbatim>\<open>params['theta']\<close>, which a gate made by this
  constructor always has (no parameter can be added or removed later); the generator of
  the model returns the empty array when the parameter is missing.
\<close>

definition Ry_Ufun :: "gparams \<Rightarrow> cmat" where
  "Ry_Ufun ps =
     (case map_of ps ''theta'' of
        None \<Rightarrow> []
      | Some theta \<Rightarrow>
          [[complex_of_real (cos theta), complex_of_real (- sin theta)],
           [complex_of_real (sin theta), complex_of_real (cos theta)]])"

definition Gate_Ry :: "real \<Rightarrow> gate" where
  "Gate_Ry theta = \<lparr>gate_N = 1, gate_Ufun = Ry_Ufun, gate_params = [(''theta'', theta)],
                     gate_name = ''Ry'', gate_ascii_symbols = [''Ry'']\<rparr>"

text \<open>\<^verbatim>\<open>Gate.U1(U)\<close> and \<^verbatim>\<open>Gate.U2(U)\<close>: explicit gates given by their matrix.\<close>

definition Gate_U1 :: "cmat \<Rightarrow> error + gate" where
  "Gate_U1 U = Gate_init 1 (\<lambda>ps. U) [] ''U1'' [''U1'']"

definition Gate_U2 :: "cmat \<Rightarrow> error + gate" where
  "Gate_U2 U = Gate_init 2 (\<lambda>ps. U) [] ''U2'' [''U2A'', ''U2B'']"

subsection \<open>Time slices\<close>

text \<open>\<^verbatim>\<open>[T2 for T2, Tref in enumerate(Ts) if Tref == T][0]\<close>, used when \<^verbatim>\<open>T in Ts\<close>.\<close>

fun first_index :: "int list \<Rightarrow> int \<Rightarrow> nat" where
  "first_index [] T = 0"
| "first_index (Tref # rest) T = (if Tref = T then 0 else Suc (first_index rest T))"

fun subset_loop :: "int list \<Rightarrow> bool \<Rightarrow> (gkey \<times> gate) list \<Rightarrow> circuit \<Rightarrow> error + circuit" where
  "subset_loop Tsel cp [] circ = Inr circ"
| "subset_loop Tsel cp (((T, key2), g) # rest) circ =
     (if T \<in> set Tsel then
        (case (if cp then gate_copy g else Inr g) of
           Inl e \<Rightarrow> Inl e
         | Inr g' \<Rightarrow>
             (case add_gate_r circ (int (first_index Tsel T)) key2 g' of
                Inl e \<Rightarrow> Inl e
              | Inr circ' \<Rightarrow> subset_loop Tsel cp rest circ'))
      else subset_loop Tsel cp rest circ)"

definition subset :: "circuit \<Rightarrow> int list \<Rightarrow> bool \<Rightarrow> error + circuit" where
  "subset c Tsel cp =
     (case Circuit_init (circ_N c) of
        Inl e \<Rightarrow> Inl e
      | Inr circ \<Rightarrow>
          if list_ex (\<lambda>Tref. Tref \<ge> nmoment c) Tsel then Inl (RuntimeError ''T >= self.nmoment'')
          else subset_loop Tsel cp (gates c) circ)"

subsection \<open>Applying a gate to a state vector\<close>

text \<open>\<^verbatim>\<open>N = (wfn1.shape[0] & -wfn1.shape[0]).bit_length() - 1\<close>\<close>

definition infer_N :: "cvec \<Rightarrow> int" where
  "infer_N wfn = bitlen (and (int (length wfn)) (- int (length wfn))) - 1"

text \<open>
  \<^verbatim>\<open>np.einsum('LjR,ij->LiR', wfn1v, U)\<close> on the view of shape \<open>(L, 2, R)\<close>: the entry
  \<open>(l, i, r)\<close> of the view is the entry \<open>(l * 2 + i) * R + r\<close> of the flat array.
\<close>

definition einsum_LjR_ij :: "nat \<Rightarrow> nat \<Rightarrow> cvec \<Rightarrow> cmat \<Rightarrow> cvec" where
  "einsum_LjR_ij L R w U =
     map (\<lambda>idx. let l = idx div (2 * R); i = (idx div R) mod 2; r = idx mod R
                in (\<Sum>j\<leftarrow>[0..<2]. w ! ((l * 2 + j) * R + r) * U ! i ! j))
         [0..<L * 2 * R]"

text \<open>
  \<^verbatim>\<open>apply_gate_1\<close> returns the array \<^verbatim>\<open>wfn2\<close> with its data overwritten: the model returns
  the new contents. For \<open>A < 0\<close> the left dimension \<^verbatim>\<open>2**A\<close> is a float and setting the
  shape of the view raises \<^verbatim>\<open>TypeError\<close>; for an empty array \<open>N = -1\<close> and \<^verbatim>\<open>2**N\<close> is
  \<open>0.5\<close>, which no length equals.
\<close>

definition apply_gate_1 :: "cvec \<Rightarrow> cvec \<Rightarrow> cmat \<Rightarrow> int \<Rightarrow> error + cvec" where
  "apply_gate_1 wfn1 wfn2 U A =
     (let n = infer_N wfn1 in
      if A \<ge> n then Inl (RuntimeError ''A >= N'')
      else if \<not> has_shape U 2 2 then Inl (RuntimeError ''1-body gate must be (2,2)'')
      else if n < 0 \<or> length wfn1 \<noteq> 2 ^ nat n
        then Inl (RuntimeError ''wfn1 should be (2**N,) shape'')
      else if length wfn2 \<noteq> 2 ^ nat n
        then Inl (RuntimeError ''wfn2 should be (2**N,) shape'')
      else if A < 0 then Inl TypeError
      else Inr (einsum_LjR_ij (2 ^ nat A) (2 ^ nat (n - A - 1)) wfn1 U))"

type_synonym ctens4 = "complex list list list list"

text \<open>\<^verbatim>\<open>np.reshape(U, (2,2,2,2))\<close> of a \<open>(4,4)\<close> array.\<close>

definition reshape_2222 :: "cmat \<Rightarrow> ctens4" where
  "reshape_2222 U =
     map (\<lambda>i. map (\<lambda>j. map (\<lambda>k. map (\<lambda>l. U ! (2 * i + j) ! (2 * k + l))
       [0..<2]) [0..<2]) [0..<2]) [0..<2]"

text \<open>\<^verbatim>\<open>np.einsum('ijkl->jilk', X)\<close>: the entry \<open>(j, i, l, k)\<close> of the result is \<open>X[i,j,k,l]\<close>.\<close>

definition einsum_ijkl_jilk :: "ctens4 \<Rightarrow> ctens4" where
  "einsum_ijkl_jilk X =
     map (\<lambda>j. map (\<lambda>i. map (\<lambda>l. map (\<lambda>k. X ! i ! j ! k ! l)
       [0..<2]) [0..<2]) [0..<2]) [0..<2]"

text \<open>\<^verbatim>\<open>np.reshape(X, (4,4))\<close> of a \<open>(2,2,2,2)\<close> array.\<close>

definition reshape_44 :: "ctens4 \<Rightarrow> cmat" where
  "reshape_44 X =
     map (\<lambda>r. map (\<lambda>c. X ! (r div 2) ! (r mod 2) ! (c div 2) ! (c mod 2)) [0..<4]) [0..<4]"

text \<open>
  \<^verbatim>\<open>np.einsum('LkMlR,ijkl->LiMjR', wfn1v, U2)\<close> on the view of shape \<open>(L, 2, M, 2, R)\<close>.
\<close>

definition einsum_LkMlR_ijkl :: "nat \<Rightarrow> nat \<Rightarrow> nat \<Rightarrow> cvec \<Rightarrow> ctens4 \<Rightarrow> cvec" where
  "einsum_LkMlR_ijkl L M R w U2 =
     map (\<lambda>idx. let r = idx mod R; j = (idx div R) mod 2; m = (idx div (2 * R)) mod M;
                    i = (idx div (2 * R * M)) mod 2; l = idx div (4 * R * M)
                in (\<Sum>k\<leftarrow>[0..<2]. \<Sum>l'\<leftarrow>[0..<2].
                      w ! ((((l * 2 + k) * M + m) * 2 + l') * R + r) * U2 ! i ! j ! k ! l'))
         [0..<L * 2 * M * 2 * R]"

definition apply_gate_2 :: "cvec \<Rightarrow> cvec \<Rightarrow> cmat \<Rightarrow> int \<Rightarrow> int \<Rightarrow> error + cvec" where
  "apply_gate_2 wfn1 wfn2 U A B =
     (let n = infer_N wfn1 in
      if A \<ge> n then Inl (RuntimeError ''A >= N'')
      else if B \<ge> n then Inl (RuntimeError ''B >= N'')
      else if A = B then Inl (RuntimeError ''A == B'')
      else if \<not> has_shape U 4 4 then Inl (RuntimeError ''2-body gate must be (4,4)'')
      else if n < 0 \<or> length wfn1 \<noteq> 2 ^ nat n
        then Inl (RuntimeError ''wfn1 should be (2**N,) shape'')
      else if length wfn2 \<noteq> 2 ^ nat n
        then Inl (RuntimeError ''wfn2 should be (2**N,) shape'')
      else
        (let (A2, B2, U2) =
               (if A > B then (B, A, einsum_ijkl_jilk (reshape_2222 U))
                else (A, B, reshape_2222 U))
         in if A2 < 0 then Inl TypeError
            else Inr (einsum_LkMlR_ijkl (2 ^ nat A2) (2 ^ nat (B2 - A2 - 1))
                        (2 ^ nat (n - B2 - 1)) wfn1 U2)))"

subsection \<open>Simulation\<close>

text \<open>
  The arrays live in a store: an array is named by its address, a position in the list
  of all arrays. Allocation appends; \<^verbatim>\<open>out=\<close> writes overwrite the array at an address.
\<close>

type_synonym heap = "cvec list"

definition alloc :: "heap \<Rightarrow> cvec \<Rightarrow> nat \<times> heap" where
  "alloc h v = (length h, h @ [v])"

text \<open>
  The inner loop of \<^verbatim>\<open>simulate_steps\<close> over the gates of one moment, with the swap
  \<^verbatim>\<open>wfn1, wfn2 = wfn2, wfn1\<close> after each gate.
\<close>

fun apply_moment ::
  "(gkey \<times> gate) list \<Rightarrow> nat \<Rightarrow> nat \<Rightarrow> heap \<Rightarrow> (error + nat \<times> nat) \<times> heap" where
  "apply_moment [] w1 w2 h = (Inr (w1, w2), h)"
| "apply_moment (((T2, key2), g) # rest) w1 w2 h =
     (if gate_N g = 1 then
        (case key2 of
           [] \<Rightarrow> (Inl IndexError, h)
         | A # _ \<Rightarrow>
             (case apply_gate_1 (h ! w1) (h ! w2) (gate_U g) A of
                Inl e \<Rightarrow> (Inl e, h)
              | Inr v \<Rightarrow> apply_moment rest w2 w1 (h[w2 := v])))
      else if gate_N g = 2 then
        (case key2 of
           A # B # _ \<Rightarrow>
             (case apply_gate_2 (h ! w1) (h ! w2) (gate_U g) A B of
                Inl e \<Rightarrow> (Inl e, h)
              | Inr v \<Rightarrow> apply_moment rest w2 w1 (h[w2 := v]))
         | _ \<Rightarrow> (Inl IndexError, h))
      else (Inl (RuntimeError ''Cannot apply gates with N > 2''), h))"

text \<open>
  The outer loop over \<^verbatim>\<open>range(self.nmoment)\<close>. The result is the list of the yielded
  pairs (moment, address of the current state) of the fully consumed generator, or the
  error that stopped it, and the store at the end.
\<close>

fun steps_loop ::
  "circuit \<Rightarrow> int list \<Rightarrow> nat \<Rightarrow> nat \<Rightarrow> heap \<Rightarrow> (error + (int \<times> nat) list) \<times> heap" where
  "steps_loop c [] w1 w2 h = (Inr [], h)"
| "steps_loop c (T # rest) w1 w2 h =
     (case subset c [T] True of
        Inl e \<Rightarrow> (Inl e, h)
      | Inr circ \<Rightarrow>
          (case apply_moment (gates circ) w1 w2 h of
             (Inl e, h') \<Rightarrow> (Inl e, h')
           | (Inr (w1', w2'), h') \<Rightarrow>
               (case steps_loop c rest w1' w2' h' of
                  (Inl e, h'') \<Rightarrow> (Inl e, h'')
                | (Inr ys, h'') \<Rightarrow> (Inr ((T, w1') # ys), h''))))"

text \<open>The reference state: \<^verbatim>\<open>wfn = np.zeros((m,)); wfn[0] = 1.0\<close>.\<close>

definition ref_state :: "nat \<Rightarrow> cvec" where
  "ref_state m = (replicate m 0)[0 := 1]"

text \<open>
  \<^verbatim>\<open>simulate_steps(wfn)\<close> at the default dtype. \<^verbatim>\<open>wfn\<close> is \<^verbatim>\<open>None\<close> or the address of the
  caller's array. \<^verbatim>\<open>np.zeros((2**self.N,))\<close> raises \<^verbatim>\<open>TypeError\<close> for negative \<^verbatim>\<open>self.N\<close>.
\<close>

definition simulate_steps ::
  "circuit \<Rightarrow> nat option \<Rightarrow> heap \<Rightarrow> (error + (int \<times> nat) list) \<times> heap" where
  "simulate_steps c wfn h =
     (if wfn = None \<and> circ_N c < 0 then (Inl TypeError, h)
      else
        (let (a, h0) = (case wfn of
                          None \<Rightarrow> alloc h (ref_state (2 ^ nat (circ_N c)))
                        | Some a0 \<Rightarrow> alloc h (h ! a0));
             (w1, h1) = alloc h0 (h0 ! a);
             (w2, h2) = alloc h1 (replicate (length (h1 ! w1)) 0)
         in steps_loop c (map int [0..<nat (nmoment c)]) w1 w2 h2))"

text \<open>
  \<^verbatim>\<open>simulate(wfn)\<close>: the loop \<^verbatim>\<open>for T, wfn in self.simulate_steps(wfn): pass\<close> rebinds the
  local \<^verbatim>\<open>wfn\<close> at every yield, and \<^verbatim>\<open>wfn\<close> is returned.
\<close>

definition simulate :: "circuit \<Rightarrow> nat option \<Rightarrow> heap \<Rightarrow> (error + nat option) \<times> heap" where
  "simulate c wfn h =
     (case simulate_steps c wfn h of
        (Inl e, h') \<Rightarrow> (Inl e, h')
      | (Inr ys, h') \<Rightarrow> (Inr (fold (\<lambda>(T, w) cur. Some w) ys wfn), h'))"

subsection \<open>Swapping the two qubits of a 2-body matrix\<close>

text \<open>
  \<^verbatim>\<open>np.reshape(np.einsum('ijkl->jilk', np.reshape(U2, (2,)*4)), (4,)*2)\<close>, as
  \<^verbatim>\<open>compressed\<close> applies it to a gate whose key presents the qubit pair in swapped order:
  the two output legs and the two input legs are swapped pairwise.
\<close>

definition swap_legs :: "cmat \<Rightarrow> cmat" where
  "swap_legs U = reshape_44 (einsum_ijkl_jilk (reshape_2222 U))"

subsection \<open>Reduced density matrix and Pauli expectation values of one qubit\<close>

text \<open>
  \<^verbatim>\<open>np.einsum('LiR,LjR->ij', wfn1v.conj(), wfn2v)\<close> on the views of shape \<open>(L, 2, R)\<close>.
\<close>

definition einsum_LiR_LjR :: "nat \<Rightarrow> nat \<Rightarrow> cvec \<Rightarrow> cvec \<Rightarrow> cmat" where
  "einsum_LiR_LjR L R w1 w2 =
     map (\<lambda>i. map (\<lambda>j. (\<Sum>l\<leftarrow>[0..<L]. \<Sum>r\<leftarrow>[0..<R].
                          w1 ! ((l * 2 + i) * R + r) * w2 ! ((l * 2 + j) * R + r)))
       [0..<2]) [0..<2]"

definition compute_1pdm :: "cvec \<Rightarrow> cvec \<Rightarrow> int \<Rightarrow> error + cmat" where
  "compute_1pdm wfn1 wfn2 A =
     (let n = infer_N wfn1 in
      if A \<ge> n then Inl (RuntimeError ''A >= N'')
      else if n < 0 \<or> length wfn1 \<noteq> 2 ^ nat n
        then Inl (RuntimeError ''wfn1 should be (2**N,) shape'')
      else if length wfn2 \<noteq> 2 ^ nat n
        then Inl (RuntimeError ''wfn2 should be (2**N,) shape'')
      else if A < 0 then Inl TypeError
      else Inr (einsum_LiR_LjR (2 ^ nat A) (2 ^ nat (n - A - 1)) (map cnj wfn1) wfn2))"

text \<open>\<^verbatim>\<open>compute_pauli_1\<close>: the expectation values packed as \<open>[I, X, Y, Z]\<close>.\<close>

definition compute_pauli_1 :: "cvec \<Rightarrow> int \<Rightarrow> error + real list" where
  "compute_pauli_1 wfn A =
     (case compute_1pdm wfn wfn A of
        Inl e \<Rightarrow> Inl e
      | Inr D \<Rightarrow>
          (let I = Re (D ! 0 ! 0 + D ! 1 ! 1);
               Z = Re (D ! 0 ! 0 - D ! 1 ! 1);
               X = Re (D ! 1 ! 0 + D ! 0 ! 1);
               Y = Im (D ! 1 ! 0 - D ! 0 ! 1)
           in Inr [I, X, Y, Z]))"

subsection \<open>Whole-circuit transforms\<close>

text \<open>\<^verbatim>\<open>copy\<close>: every gate is copied and added to a new circuit.\<close>

fun copy_loop :: "(gkey \<times> gate) list \<Rightarrow> circuit \<Rightarrow> error + circuit" where
  "copy_loop [] circ = Inr circ"
| "copy_loop (((T, key2), g) # rest) circ =
     (case gate_copy g of
        Inl e \<Rightarrow> Inl e
      | Inr g' \<Rightarrow>
          (case add_gate_r circ T key2 g' of
             Inl e \<Rightarrow> Inl e
           | Inr circ' \<Rightarrow> copy_loop rest circ'))"

definition copy :: "circuit \<Rightarrow> error + circuit" where
  "copy c =
     (case Circuit_init (circ_N c) of
        Inl e \<Rightarrow> Inl e
      | Inr circ \<Rightarrow> copy_loop (gates c) circ)"

text \<open>
  \<^verbatim>\<open>reversed\<close>: every gate is added to a new circuit at the moment
  \<^verbatim>\<open>self.nmoment - T - 1\<close>; the gate object itself is passed on.
\<close>

fun reversed_loop :: "int \<Rightarrow> (gkey \<times> gate) list \<Rightarrow> circuit \<Rightarrow> error + circuit" where
  "reversed_loop nm [] circ = Inr circ"
| "reversed_loop nm (((T, key2), g) # rest) circ =
     (case add_gate_r circ (nm - T - 1) key2 g of
        Inl e \<Rightarrow> Inl e
      | Inr circ' \<Rightarrow> reversed_loop nm rest circ')"

definition reversed :: "circuit \<Rightarrow> error + circuit" where
  "reversed c =
     (case Circuit_init (circ_N c) of
        Inl e \<Rightarrow> Inl e
      | Inr circ \<Rightarrow> reversed_loop (nmoment c) (gates c) circ)"

text \<open>
  \<^verbatim>\<open>nonredundant\<close>: \<^verbatim>\<open>Tmap = { v : k for k, v in enumerate(sorted(self.Ts)) }\<close> (a later
  entry of the comprehension overrides an earlier one), and \<^verbatim>\<open>Tmap[T]\<close> raises \<^verbatim>\<open>KeyError\<close>
  for a missing moment.
\<close>

definition Tmap_lookup :: "int list \<Rightarrow> int \<Rightarrow> error + int" where
  "Tmap_lookup Tl T =
     (case map_of (rev (zip (sort Tl) (map int [0..<length Tl]))) T of
        None \<Rightarrow> Inl KeyError
      | Some k \<Rightarrow> Inr k)"

fun nonredundant_loop :: "int list \<Rightarrow> (gkey \<times> gate) list \<Rightarrow> circuit \<Rightarrow> error + circuit" where
  "nonredundant_loop Tl [] circ = Inr circ"
| "nonredundant_loop Tl (((T, key2), g) # rest) circ =
     (case Tmap_lookup Tl T of
        Inl e \<Rightarrow> Inl e
      | Inr T' \<Rightarrow>
          (case add_gate_r circ T' key2 g of
             Inl e \<Rightarrow> Inl e
           | Inr circ' \<Rightarrow> nonredundant_loop Tl rest circ'))"

definition nonredundant :: "circuit \<Rightarrow> error + circuit" where
  "nonredundant c =
     (case Circuit_init (circ_N c) of
        Inl e \<Rightarrow> Inl e
      | Inr circ \<Rightarrow> nonredundant_loop (Ts c) (gates c) circ)"

subsection \<open>The flattened parameter view\<close>

text \<open>
  \<^verbatim>\<open>param_keys\<close>: the triples \<open>(T, key, name)\<close> in the order of the gates and of the
  parameters of each gate (the inner loop is \<open>gate_param_keys\<close>), then sorted (stably, as Python's sort is) by the key
  \<^verbatim>\<open>(x[0], x[1])\<close>; Python compares tuples lexicographically.
\<close>

definition gate_param_keys :: "gkey \<times> gate \<Rightarrow> (int \<times> int list \<times> string) list" where
  "gate_param_keys = (\<lambda>((T, key2), g). map (\<lambda>(name, v). (T, key2, name)) (gate_params g))"

definition param_keys :: "circuit \<Rightarrow> (int \<times> int list \<times> string) list" where
  "param_keys c =
     sort_key (\<lambda>x. (fst x, fst (snd x))) (concat (map gate_param_keys (gates c)))"

subsection \<open>Circuits as the class keeps them\<close>

text \<open>
  What holds of every circuit that was made by \<^verbatim>\<open>Circuit(N)\<close> and filled by \<^verbatim>\<open>add_gate\<close>
  with gates of positive arity: the moments are not negative, the length of a key is
  the arity of its gate, the qubit indices are below \<open>N\<close>, no two gates share a slot
  \<open>(T, A)\<close>, and \<^verbatim>\<open>Ts\<close> and \<^verbatim>\<open>TAs\<close> are the sorted distinct moments and the occupied slots
  of the gates.
\<close>

definition slots :: "(gkey \<times> gate) list \<Rightarrow> (int \<times> int) set" where
  "slots gs = (\<Union>((T, key2), g) \<in> set gs. (\<lambda>A. (T, A)) ` set key2)"

fun placements_ok :: "int \<Rightarrow> (gkey \<times> gate) list \<Rightarrow> bool" where
  "placements_ok n [] = True"
| "placements_ok n (((T, key2), g) # rest) =
     (0 \<le> T \<and> key2 \<noteq> [] \<and> int (length key2) = gate_N g \<and> (\<forall>A \<in> set key2. A < n)
      \<and> (\<forall>A \<in> set key2. (T, A) \<notin> slots rest) \<and> placements_ok n rest)"

definition circuit_inv :: "circuit \<Rightarrow> bool" where
  "circuit_inv c =
     (0 < circ_N c \<and> placements_ok (circ_N c) (gates c)
      \<and> Ts c = sort (remdups (map (\<lambda>x. fst (fst x)) (gates c)))
      \<and> TAs c = slots (gates c))"

subsection \<open>Python lists and NumPy products used by the compressor\<close>

definition ebind :: "error + 'a \<Rightarrow> ('a \<Rightarrow> error + 'b) \<Rightarrow> error + 'b" where
  "ebind m f = (case m of Inl e \<Rightarrow> Inl e | Inr x \<Rightarrow> f x)"

text \<open>\<^verbatim>\<open>d[k]\<close> on a dict raises \<^verbatim>\<open>KeyError\<close> for a missing key.\<close>

definition dict_get :: "('k \<times> 'v) list \<Rightarrow> 'k \<Rightarrow> error + 'v" where
  "dict_get d k = (case map_of d k of None \<Rightarrow> Inl KeyError | Some v \<Rightarrow> Inr v)"

text \<open>
  The position that the index \<open>i\<close> names in a Python list of length \<open>len\<close>: a negative
  index counts from the end, and an index out of range raises \<^verbatim>\<open>IndexError\<close>.
\<close>

definition py_index :: "nat \<Rightarrow> int \<Rightarrow> error + nat" where
  "py_index len i =
     (if 0 \<le> i \<and> i < int len then Inr (nat i)
      else if - int len \<le> i \<and> i < 0 then Inr (nat (int len + i))
      else Inl IndexError)"

text \<open>\<^verbatim>\<open>xs[a:b]\<close>: the bounds of a slice are clamped, negative ones count from the end.\<close>

definition py_clamp :: "nat \<Rightarrow> int \<Rightarrow> nat" where
  "py_clamp len i = (if i < 0 then nat (max 0 (int len + i)) else min (nat i) len)"

definition py_slice :: "'a list \<Rightarrow> int \<Rightarrow> int \<Rightarrow> 'a list" where
  "py_slice xs a b = drop (py_clamp (length xs) a) (take (py_clamp (length xs) b) xs)"

text \<open>\<^verbatim>\<open>enumerate(xs)\<close> and \<^verbatim>\<open>range(a, b)\<close>.\<close>

definition py_enumerate :: "'a list \<Rightarrow> (int \<times> 'a) list" where
  "py_enumerate xs = zip (map int [0..<length xs]) xs"

definition py_range :: "int \<Rightarrow> int \<Rightarrow> int list" where
  "py_range a b = map (\<lambda>i. a + int i) [0..<nat (b - a)]"

text \<open>\<^verbatim>\<open>np.eye(n)\<close>, \<^verbatim>\<open>np.kron(A, B)\<close> and \<^verbatim>\<open>np.dot(A, B)\<close> of two-dimensional arrays.\<close>

definition np_eye :: "nat \<Rightarrow> cmat" where
  "np_eye n = map (\<lambda>i. map (\<lambda>j. if i = j then 1 else 0) [0..<n]) [0..<n]"

definition np_kron :: "cmat \<Rightarrow> cmat \<Rightarrow> cmat" where
  "np_kron A B = concat (map (\<lambda>ra. map (\<lambda>rb. concat (map (\<lambda>a. map (\<lambda>b. a * b) rb) ra)) B) A)"

definition ncols :: "cmat \<Rightarrow> nat" where
  "ncols B = (case B of [] \<Rightarrow> 0 | r # _ \<Rightarrow> length r)"

definition np_dot :: "cmat \<Rightarrow> cmat \<Rightarrow> error + cmat" where
  "np_dot A B =
     (if list_all (\<lambda>r. length r = length B) A
      then Inr (map (\<lambda>r. map (\<lambda>j. (\<Sum>k\<leftarrow>[0..<length B]. r ! k * B ! k ! j)) [0..<ncols B]) A)
      else Inl ValueError)"

subsection \<open>The compressor: the occupancy plan\<close>

text \<open>
  \<^verbatim>\<open>plan[A][T] = v\<close> and \<^verbatim>\<open>plan[A][T]\<close> on the list of rows (one row per qubit).
\<close>

definition plan_set :: "int list list \<Rightarrow> int \<Rightarrow> int \<Rightarrow> int \<Rightarrow> error + int list list" where
  "plan_set plan A T v =
     ebind (py_index (length plan) A) (\<lambda>a.
     ebind (py_index (length (plan ! a)) T) (\<lambda>t.
     Inr (plan[a := (plan ! a)[t := v]])))"

definition plan_get :: "int list list \<Rightarrow> int \<Rightarrow> int \<Rightarrow> error + int" where
  "plan_get plan A T =
     ebind (py_index (length plan) A) (\<lambda>a.
     ebind (py_index (length (plan ! a)) T) (\<lambda>t.
     Inr (plan ! a ! t)))"

text \<open>
  The loop that fills the plan: \<open>1\<close> for a 1-body gate, \<open>2\<close> and \<open>-2\<close> for the first and
  the second qubit of a 2-body gate. Unpacking \<^verbatim>\<open>A, = key2\<close> or \<^verbatim>\<open>A, B = key2\<close> raises
  \<^verbatim>\<open>ValueError\<close> for a key of another length.
\<close>

fun make_plan_loop :: "(gkey \<times> gate) list \<Rightarrow> int list list \<Rightarrow> error + int list list" where
  "make_plan_loop [] plan = Inr plan"
| "make_plan_loop (((T, key2), g) # rest) plan =
     (if gate_N g = 1 then
        (case key2 of
           [A] \<Rightarrow> (case plan_set plan A T 1 of
                     Inl e \<Rightarrow> Inl e
                   | Inr plan1 \<Rightarrow> make_plan_loop rest plan1)
         | _ \<Rightarrow> Inl ValueError)
      else if gate_N g = 2 then
        (case key2 of
           [A, B] \<Rightarrow> (case ebind (plan_set plan A T 2) (\<lambda>plan1. plan_set plan1 B T (- 2)) of
                        Inl e \<Rightarrow> Inl e
                      | Inr plan2 \<Rightarrow> make_plan_loop rest plan2)
         | _ \<Rightarrow> Inl ValueError)
      else Inl (RuntimeError ''N > 2''))"

text \<open>
  \<^verbatim>\<open>plan = [[0 for x in range(self.nmoment)] for y in range(self.N)]\<close>, then the loop.
\<close>

definition make_plan :: "int \<Rightarrow> int \<Rightarrow> (gkey \<times> gate) list \<Rightarrow> error + int list list" where
  "make_plan n nm gs = make_plan_loop gs (replicate (nat n) (replicate (nat nm) 0))"

subsection \<open>The compressor, step 1: runs of 1-body gates\<close>

text \<open>
  The loop over one row of the plan. The pair \<^verbatim>\<open>(Tstar, U)\<close> is \<^verbatim>\<open>None\<close> or the moment and
  the product of the run that is open.
\<close>

fun chain_loop ::
  "(gkey \<times> gate) list \<Rightarrow> int \<Rightarrow> int \<Rightarrow> (int \<times> int) list \<Rightarrow> (int \<times> cmat) option \<Rightarrow> circuit
     \<Rightarrow> error + circuit" where
  "chain_loop gs1 nm A [] st circuit2 = Inr circuit2"
| "chain_loop gs1 nm A ((T, V) # rest) st circuit2 =
     (case (if V = 1 then
              (case st of
                 None \<Rightarrow> ebind (dict_get gs1 (T, [A])) (\<lambda>g. Inr (Some (T, gate_U g)))
               | Some (Tstar, U) \<Rightarrow>
                   ebind (dict_get gs1 (T, [A])) (\<lambda>g.
                   ebind (np_dot (gate_U g) U) (\<lambda>U'. Inr (Some (Tstar, U')))))
            else Inr st) of
        Inl e \<Rightarrow> Inl e
      | Inr None \<Rightarrow> chain_loop gs1 nm A rest None circuit2
      | Inr (Some (Tstar, U)) \<Rightarrow>
          if V = 2 \<or> V = - 2 \<or> T = nm - 1 then
            (case ebind (Gate_U1 U) (add_gate_r circuit2 Tstar [A]) of
               Inl e \<Rightarrow> Inl e
             | Inr circuit2' \<Rightarrow> chain_loop gs1 nm A rest None circuit2')
          else chain_loop gs1 nm A rest (Some (Tstar, U)) circuit2)"

fun chain_rows ::
  "(gkey \<times> gate) list \<Rightarrow> int \<Rightarrow> (int \<times> int list) list \<Rightarrow> circuit \<Rightarrow> error + circuit" where
  "chain_rows gs1 nm [] circuit2 = Inr circuit2"
| "chain_rows gs1 nm ((A, row) # rest) circuit2 =
     (case chain_loop gs1 nm A (py_enumerate row) None circuit2 of
        Inl e \<Rightarrow> Inl e
      | Inr circuit2' \<Rightarrow> chain_rows gs1 nm rest circuit2')"

text \<open>The loop that adds the 2-body gates of \<^verbatim>\<open>circuit1\<close> as they are.\<close>

fun add_two_body :: "(gkey \<times> gate) list \<Rightarrow> circuit \<Rightarrow> error + circuit" where
  "add_two_body [] circuit2 = Inr circuit2"
| "add_two_body (((T, key2), g) # rest) circuit2 =
     (if gate_N g = 2 then
        (case add_gate_r circuit2 T key2 g of
           Inl e \<Rightarrow> Inl e
         | Inr circuit2' \<Rightarrow> add_two_body rest circuit2')
      else add_two_body rest circuit2)"

text \<open>Step 1, from \<^verbatim>\<open>self\<close> to the circuit that step 2 reads.\<close>

definition compress_step1 :: "circuit \<Rightarrow> error + circuit" where
  "compress_step1 c =
     ebind (copy c) (\<lambda>circuit1.
     ebind (make_plan (circ_N c) (nmoment c) (gates circuit1)) (\<lambda>plan.
     ebind (Circuit_init (circ_N c)) (\<lambda>circuit2.
     ebind (chain_rows (gates circuit1) (nmoment c) (py_enumerate plan) circuit2) (\<lambda>circuit2'.
     add_two_body (gates circuit1) circuit2'))))"

subsection \<open>The compressor, step 2: 1-body gates into 2-body gates\<close>

text \<open>
  The backward scan \<^verbatim>\<open>for T2 in range(T-1,-1,-1)\<close> on the row of qubit \<open>A\<close>: it stops
  without a gate at the first 2-body entry and with the moment of the first 1-body entry.
\<close>

fun left_scan :: "int list list \<Rightarrow> int \<Rightarrow> int list \<Rightarrow> error + int option" where
  "left_scan plan A [] = Inr None"
| "left_scan plan A (T2 # rest) =
     (case plan_get plan A T2 of
        Inl e \<Rightarrow> Inl e
      | Inr V \<Rightarrow>
          if V = 2 \<or> V = - 2 then Inr None
          else if V = 1 then Inr (Some T2)
          else left_scan plan A rest)"

text \<open>A loop that collects results and stops at the first error.\<close>

fun emap :: "('a \<Rightarrow> error + 'b) \<Rightarrow> 'a list \<Rightarrow> error + 'b list" where
  "emap f [] = Inr []"
| "emap f (x # xs) =
     (case f x of
        Inl e \<Rightarrow> Inl e
      | Inr y \<Rightarrow> (case emap f xs of Inl e \<Rightarrow> Inl e | Inr ys \<Rightarrow> Inr (y # ys)))"

text \<open>\<^verbatim>\<open>max\<close> of a sequence that is not empty.\<close>

definition py_max :: "int list \<Rightarrow> int" where
  "py_max xs = foldl max (hd xs) (tl xs)"

text \<open>
  The test and the search on the right side of a 2-body gate at moment \<open>T\<close>:
  \<^verbatim>\<open>T+1 < self.nmoment and max(abs(plan[A][T2]) for T2 in range(T+1, self.nmoment)) == 1\<close>,
  then \<^verbatim>\<open>[T3 for T3, P in enumerate(plan[A][T+1:self.nmoment]) if P == 1][0] + T+1\<close>.
\<close>

definition right_scan :: "int list list \<Rightarrow> int \<Rightarrow> int \<Rightarrow> int \<Rightarrow> error + int option" where
  "right_scan plan A T nm =
     (if T + 1 < nm then
        ebind (emap (\<lambda>T2. plan_get plan A T2) (py_range (T + 1) nm)) (\<lambda>Vs.
        if py_max (map abs Vs) = 1 then
          ebind (py_index (length plan) A) (\<lambda>a.
          case filter (\<lambda>(T3, P). P = 1) (py_enumerate (py_slice (plan ! a) (T + 1) nm)) of
            [] \<Rightarrow> Inl IndexError
          | (T3, P) # _ \<Rightarrow> Inr (Some (T3 + T + 1)))
        else Inr None)
      else Inr None)"

text \<open>
  The forward scan as the specification words it, to compare with \<open>right_scan\<close>: the
  nearest following 1-body gate on the row of the qubit that no two-body entry between
  blocks, that is, the first occupied entry after \<open>T\<close> if it is a 1-body entry.
\<close>

definition spec_following_1body :: "int list list \<Rightarrow> int \<Rightarrow> int \<Rightarrow> int \<Rightarrow> int option" where
  "spec_following_1body plan A T nm =
     (case filter (\<lambda>(T3, P). P \<noteq> 0) (py_enumerate (py_slice (plan ! nat A) (T + 1) nm)) of
        [] \<Rightarrow> None
      | (T3, P) # _ \<Rightarrow> if P = 1 then Some (T3 + T + 1) else None)"

text \<open>
  Folding the 1-body gate at \<^verbatim>\<open>(T2, (A,))\<close> into the matrix \<open>U\<close> of the 2-body gate, on the
  left side (\<^verbatim>\<open>U = np.dot(U, K)\<close>) or on the right side (\<^verbatim>\<open>U = np.dot(K, U)\<close>), where \<open>K\<close> is
  \<^verbatim>\<open>np.kron(gate1.U, np.eye(2))\<close> for the first qubit of the key and
  \<^verbatim>\<open>np.kron(np.eye(2), gate1.U)\<close> for the second; the key is recorded in \<^verbatim>\<open>jammed_gates\<close>.
\<close>

definition kron_first :: "cmat \<Rightarrow> cmat" where
  "kron_first U1 = np_kron U1 (np_eye 2)"

definition kron_second :: "cmat \<Rightarrow> cmat" where
  "kron_second U1 = np_kron (np_eye 2) U1"

definition fold_left ::
  "(gkey \<times> gate) list \<Rightarrow> (cmat \<Rightarrow> cmat) \<Rightarrow> int \<Rightarrow> int option \<Rightarrow> cmat \<times> gkey list
     \<Rightarrow> error + cmat \<times> gkey list" where
  "fold_left gs1 kr A hit st =
     (case hit of
        None \<Rightarrow> Inr st
      | Some T2 \<Rightarrow>
          ebind (dict_get gs1 (T2, [A])) (\<lambda>gate1.
          ebind (np_dot (fst st) (kr (gate_U gate1))) (\<lambda>U.
          Inr (U, snd st @ [(T2, [A])]))))"

definition fold_right ::
  "(gkey \<times> gate) list \<Rightarrow> (cmat \<Rightarrow> cmat) \<Rightarrow> int \<Rightarrow> int option \<Rightarrow> cmat \<times> gkey list
     \<Rightarrow> error + cmat \<times> gkey list" where
  "fold_right gs1 kr A hit st =
     (case hit of
        None \<Rightarrow> Inr st
      | Some T2 \<Rightarrow>
          ebind (dict_get gs1 (T2, [A])) (\<lambda>gate1.
          ebind (np_dot (kr (gate_U gate1)) (fst st)) (\<lambda>U.
          Inr (U, snd st @ [(T2, [A])]))))"

text \<open>
  The body of the loop for one 2-body gate at \<open>(T, (A, B))\<close> with matrix \<open>U\<close>: left side of
  \<open>A\<close>, left side of \<open>B\<close>, right side of \<open>A\<close>, right side of \<open>B\<close>. The result is the matrix of
  the new gate and the keys recorded in \<^verbatim>\<open>jammed_gates\<close>.
\<close>

definition jam_one ::
  "(gkey \<times> gate) list \<Rightarrow> int list list \<Rightarrow> int \<Rightarrow> int \<Rightarrow> int \<Rightarrow> int \<Rightarrow> cmat
     \<Rightarrow> error + cmat \<times> gkey list" where
  "jam_one gs1 plan nm T A B U =
     ebind (left_scan plan A (rev (py_range 0 T))) (\<lambda>hitA.
     ebind (fold_left gs1 kron_first A hitA (U, [])) (\<lambda>st1.
     ebind (left_scan plan B (rev (py_range 0 T))) (\<lambda>hitB.
     ebind (fold_left gs1 kron_second B hitB st1) (\<lambda>st2.
     ebind (right_scan plan A T nm) (\<lambda>hitA'.
     ebind (fold_right gs1 kron_first A hitA' st2) (\<lambda>st3.
     ebind (right_scan plan B T nm) (\<lambda>hitB'.
     fold_right gs1 kron_second B hitB' st3)))))))"

text \<open>The loop over the 2-body gates of \<^verbatim>\<open>circuit1\<close>.\<close>

fun jam_loop ::
  "(gkey \<times> gate) list \<Rightarrow> int list list \<Rightarrow> int \<Rightarrow> (gkey \<times> gate) list \<Rightarrow> gkey list \<Rightarrow> circuit
     \<Rightarrow> error + gkey list \<times> circuit" where
  "jam_loop gs1 plan nm [] jammed circuit2 = Inr (jammed, circuit2)"
| "jam_loop gs1 plan nm (((T, key2), g) # rest) jammed circuit2 =
     (if gate_N g \<noteq> 2 then jam_loop gs1 plan nm rest jammed circuit2
      else
        (case key2 of
           [A, B] \<Rightarrow>
             (case ebind (jam_one gs1 plan nm T A B (gate_U g)) (\<lambda>(U, js).
                   ebind (Gate_U2 U) (\<lambda>g2.
                   ebind (add_gate_r circuit2 T key2 g2) (\<lambda>circuit2'.
                   Inr (js, circuit2')))) of
                Inl e \<Rightarrow> Inl e
              | Inr (js, circuit2') \<Rightarrow> jam_loop gs1 plan nm rest (jammed @ js) circuit2')
         | _ \<Rightarrow> Inl ValueError))"

text \<open>The loop that adds the 1-body gates whose key is not in \<^verbatim>\<open>jammed_gates\<close>.\<close>

fun unjammed_loop :: "(gkey \<times> gate) list \<Rightarrow> gkey list \<Rightarrow> circuit \<Rightarrow> error + circuit" where
  "unjammed_loop [] jammed circuit2 = Inr circuit2"
| "unjammed_loop (((T, key2), g) # rest) jammed circuit2 =
     (if gate_N g \<noteq> 1 then unjammed_loop rest jammed circuit2
      else if (T, key2) \<notin> set jammed then
        (case add_gate_r circuit2 T key2 g of
           Inl e \<Rightarrow> Inl e
         | Inr circuit2' \<Rightarrow> unjammed_loop rest jammed circuit2')
      else unjammed_loop rest jammed circuit2)"

text \<open>
  Step 2, from the result \<^verbatim>\<open>circuit1\<close> of step 1 (\<open>n\<close> and \<open>nm\<close> are \<^verbatim>\<open>self.N\<close> and
  \<^verbatim>\<open>self.nmoment\<close>) to the circuit that step 3 reads.
\<close>

definition compress_step2 :: "int \<Rightarrow> int \<Rightarrow> circuit \<Rightarrow> error + circuit" where
  "compress_step2 n nm circuit1 =
     ebind (make_plan n nm (gates circuit1)) (\<lambda>plan.
     ebind (Circuit_init n) (\<lambda>circuit2.
     ebind (jam_loop (gates circuit1) plan nm (gates circuit1) [] circuit2) (\<lambda>(jammed, circuit2').
     unjammed_loop (gates circuit1) jammed circuit2')))"

subsection \<open>The compressor, step 3: runs of 2-body gates on the same pair\<close>

text \<open>
  The scan \<^verbatim>\<open>for T2 in range(T+1, self.nmoment)\<close> that collects the later gates on the pair
  \<open>(A, B)\<close> or \<open>(B, A)\<close> (the flag says whether the pair is swapped) and stops when another
  gate occupies \<open>A\<close> or \<open>B\<close>.
\<close>

fun scan_jams ::
  "circuit \<Rightarrow> int \<Rightarrow> int \<Rightarrow> int list \<Rightarrow> (gkey \<times> gate \<times> bool) list
     \<Rightarrow> (gkey \<times> gate \<times> bool) list" where
  "scan_jams circuit1 A B [] jams = jams"
| "scan_jams circuit1 A B (T2 # rest) jams =
     (case map_of (gates circuit1) (T2, [A, B]) of
        Some g \<Rightarrow> scan_jams circuit1 A B rest (jams @ [((T2, [A, B]), g, False)])
      | None \<Rightarrow>
          (case map_of (gates circuit1) (T2, [B, A]) of
             Some g \<Rightarrow> scan_jams circuit1 A B rest (jams @ [((T2, [B, A]), g, True)])
           | None \<Rightarrow>
               if (T2, A) \<in> TAs circuit1 then jams
               else if (T2, B) \<in> TAs circuit1 then jams
               else scan_jams circuit1 A B rest jams))"

text \<open>
  The product of the run: \<^verbatim>\<open>U = np.dot(U2, U)\<close> for every later gate, whose matrix \<open>U2\<close> has
  its legs swapped first when the flag is set. \<^verbatim>\<open>np.reshape(U2, (2,)*4)\<close> raises
  \<^verbatim>\<open>ValueError\<close> unless \<open>U2\<close> has 16 entries; the matrices here belong to gates that
  \<^verbatim>\<open>Gate.U2\<close> made in step 2, of shape \<open>(4, 4)\<close>, and the model raises for any other shape.
\<close>

fun fuse_jams :: "(gkey \<times> gate \<times> bool) list \<Rightarrow> cmat \<Rightarrow> error + cmat" where
  "fuse_jams [] U = Inr U"
| "fuse_jams ((key, g, swapped) # rest) U =
     (case (if swapped
              then (if has_shape (gate_U g) 4 4 then Inr (swap_legs (gate_U g)) else Inl ValueError)
            else Inr (gate_U g)) of
        Inl e \<Rightarrow> Inl e
      | Inr U2 \<Rightarrow> (case np_dot U2 U of Inl e \<Rightarrow> Inl e | Inr U' \<Rightarrow> fuse_jams rest U'))"

text \<open>The loop over the gates of the moment \<open>T\<close> (the gates of \<^verbatim>\<open>circuit1.subset([T])\<close>).\<close>

fun jam2_moment ::
  "circuit \<Rightarrow> int \<Rightarrow> int \<Rightarrow> (gkey \<times> gate) list \<Rightarrow> gkey list \<Rightarrow> circuit
     \<Rightarrow> error + gkey list \<times> circuit" where
  "jam2_moment circuit1 nm T [] jammed circuit2 = Inr (jammed, circuit2)"
| "jam2_moment circuit1 nm T (((T4, key2), g) # rest) jammed circuit2 =
     (if gate_N g \<noteq> 2 then jam2_moment circuit1 nm T rest jammed circuit2
      else if (T, key2) \<in> set jammed then jam2_moment circuit1 nm T rest jammed circuit2
      else
        (case key2 of
           [A, B] \<Rightarrow>
             (let jams = scan_jams circuit1 A B (py_range (T + 1) nm) [((T, key2), g, False)]
              in case ebind (fuse_jams (tl jams) (gate_U (fst (snd (hd jams))))) (\<lambda>U.
                      ebind (Gate_U2 U) (\<lambda>g2.
                      add_gate_r circuit2 T [A, B] g2)) of
                   Inl e \<Rightarrow> Inl e
                 | Inr circuit2' \<Rightarrow>
                     jam2_moment circuit1 nm T rest (jammed @ map fst jams) circuit2')
         | _ \<Rightarrow> Inl ValueError))"

text \<open>The loop \<^verbatim>\<open>for T in range(circuit1.nmoment)\<close>.\<close>

fun jam2_loop ::
  "circuit \<Rightarrow> int \<Rightarrow> int list \<Rightarrow> gkey list \<Rightarrow> circuit \<Rightarrow> error + gkey list \<times> circuit" where
  "jam2_loop circuit1 nm [] jammed circuit2 = Inr (jammed, circuit2)"
| "jam2_loop circuit1 nm (T # rest) jammed circuit2 =
     (case ebind (subset circuit1 [T] True) (\<lambda>circuit3.
           jam2_moment circuit1 nm T (gates circuit3) jammed circuit2) of
        Inl e \<Rightarrow> Inl e
      | Inr (jammed', circuit2') \<Rightarrow> jam2_loop circuit1 nm rest jammed' circuit2')"

definition compress_step3 :: "int \<Rightarrow> int \<Rightarrow> circuit \<Rightarrow> error + circuit" where
  "compress_step3 n nm circuit1 =
     ebind (Circuit_init n) (\<lambda>circuit2.
     ebind (jam2_loop circuit1 nm (py_range 0 (nmoment circuit1)) [] circuit2)
       (\<lambda>(jammed, circuit2').
     unjammed_loop (gates circuit1) jammed circuit2'))"

text \<open>\<^verbatim>\<open>compressed\<close>: the three steps, then \<^verbatim>\<open>nonredundant\<close>.\<close>

definition compressed :: "circuit \<Rightarrow> error + circuit" where
  "compressed c =
     ebind (compress_step1 c) (\<lambda>circuit1.
     ebind (compress_step2 (circ_N c) (nmoment c) circuit1) (\<lambda>circuit1'.
     ebind (compress_step3 (circ_N c) (nmoment c) circuit1') (\<lambda>circuit2.
     nonredundant circuit2)))"

section \<open>Properties\<close>

subsection \<open>Gate addition\<close>

lemma check_open_None_iff:
  "check_open c T ks = None \<longleftrightarrow> (\<forall>A \<in> set ks. (T, A) \<notin> TAs c \<and> A < circ_N c)"
  by (induction ks) auto

text \<open>
  C3. A call \<^verbatim>\<open>add_gate(T, key, gate)\<close> raises exactly when \<open>T < 0\<close>, or the length of the
  key differs from the arity of the gate, or some slot \<open>(T, A)\<close> of the key is already
  occupied, or some qubit index of the key is \<open>\<ge> N\<close>; and when it raises, the circuit
  (gates, occupied slots, moment list) is as it was before the call.
\<close>

theorem add_gate_fails_iff_and_unchanged:
  "(fst (add_gate c T key g) \<noteq> None \<longleftrightarrow>
      (T < 0 \<or> int (length (key_tuple key)) \<noteq> gate_N g
       \<or> (\<exists>A \<in> set (key_tuple key). (T, A) \<in> TAs c)
       \<or> (\<exists>A \<in> set (key_tuple key). A \<ge> circ_N c)))
   \<and> (fst (add_gate c T key g) \<noteq> None \<longrightarrow> snd (add_gate c T key g) = c)"
proof -
  have open_iff: "check_open c T (key_tuple key) \<noteq> None \<longleftrightarrow>
      ((\<exists>A \<in> set (key_tuple key). (T, A) \<in> TAs c)
       \<or> (\<exists>A \<in> set (key_tuple key). A \<ge> circ_N c))"
    using check_open_None_iff [of c T "key_tuple key"] by (auto simp: not_less)
  show ?thesis
  proof (cases "check_open c T (key_tuple key)")
    case None
    with open_iff show ?thesis
      by (auto simp: add_gate_def Let_def)
  next
    case (Some e)
    with open_iff show ?thesis
      by (auto simp: add_gate_def Let_def)
  qed
qed

theorem add_gate_fails_witness:
  "fst (add_gate \<lparr>circ_N = 2, gates = [((0, [0]), Gate_X)], Ts = [0], TAs = {(0, 0)}\<rparr>
          0 (KInt 0) Gate_H) \<noteq> None
   \<and> snd (add_gate \<lparr>circ_N = 2, gates = [((0, [0]), Gate_X)], Ts = [0], TAs = {(0, 0)}\<rparr>
          0 (KInt 0) Gate_H)
     = \<lparr>circ_N = 2, gates = [((0, [0]), Gate_X)], Ts = [0], TAs = {(0, 0)}\<rparr>"
  using add_gate_fails_iff_and_unchanged
    [of "\<lparr>circ_N = 2, gates = [((0, [0]), Gate_X)], Ts = [0], TAs = {(0, 0)}\<rparr>" 0 "KInt 0" Gate_H]
  by simp

subsection \<open>The simulator does not write into the caller's array\<close>

lemma apply_moment_frame:
  "apply_moment gs w1 w2 h = (r, h') \<Longrightarrow> a \<noteq> w1 \<Longrightarrow> a \<noteq> w2 \<Longrightarrow>
     h' ! a = h ! a \<and> length h' = length h
     \<and> (\<forall>w1' w2'. r = Inr (w1', w2') \<longrightarrow> a \<noteq> w1' \<and> a \<noteq> w2')"
proof (induction gs w1 w2 h rule: apply_moment.induct)
  case (1 w1 w2 h)
  then show ?case by auto
next
  case (2 T2 key2 g rest w1 w2 h)
  show ?case
  proof (cases "gate_N g = 1")
    case True
    show ?thesis
    proof (cases key2)
      case Nil
      with True 2 show ?thesis by auto
    next
      case (Cons A ks)
      show ?thesis
      proof (cases "apply_gate_1 (h ! w1) (h ! w2) (gate_U g) A")
        case (Inl e)
        with True Cons 2 show ?thesis by auto
      next
        case (Inr v)
        with True Cons 2 show ?thesis by auto
      qed
    qed
  next
    case False
    note not1 = False
    show ?thesis
    proof (cases "gate_N g = 2")
      case False
      with not1 2 show ?thesis by auto
    next
      case True
      show ?thesis
      proof (cases key2)
        case Nil
        with True 2 show ?thesis by auto
      next
        case (Cons A ks)
        note kA = Cons
        show ?thesis
        proof (cases ks)
          case Nil
          with True kA 2 show ?thesis by auto
        next
          case (Cons B ks')
          show ?thesis
          proof (cases "apply_gate_2 (h ! w1) (h ! w2) (gate_U g) A B")
            case (Inl e)
            with True kA Cons 2 show ?thesis by auto
          next
            case (Inr v)
            with True kA Cons 2 show ?thesis by auto
          qed
        qed
      qed
    qed
  qed
qed

lemma steps_loop_frame:
  "steps_loop c Tl w1 w2 h = (r, h') \<Longrightarrow> a \<noteq> w1 \<Longrightarrow> a \<noteq> w2 \<Longrightarrow>
     h' ! a = h ! a \<and> length h' = length h"
proof (induction Tl arbitrary: w1 w2 h r h')
  case Nil
  then show ?case by auto
next
  case (Cons T rest)
  show ?case
  proof (cases "subset c [T] True")
    case (Inl e)
    with Cons.prems show ?thesis by auto
  next
    case (Inr circ)
    obtain r1 h1 where am: "apply_moment (gates circ) w1 w2 h = (r1, h1)"
      by (cases "apply_moment (gates circ) w1 w2 h") auto
    from apply_moment_frame [OF am Cons.prems(2,3)]
    have fr: "h1 ! a = h ! a" "length h1 = length h"
      and ne: "\<And>w1' w2'. r1 = Inr (w1', w2') \<Longrightarrow> a \<noteq> w1' \<and> a \<noteq> w2'"
      by auto
    show ?thesis
    proof (cases r1)
      case (Inl e)
      with Inr am Cons.prems fr show ?thesis by auto
    next
      case r1: (Inr p)
      obtain w1' w2' where p: "p = (w1', w2')" by (cases p) auto
      obtain r2 h2 where sl: "steps_loop c rest w1' w2' h1 = (r2, h2)"
        by (cases "steps_loop c rest w1' w2' h1") auto
      from ne r1 p have "a \<noteq> w1'" "a \<noteq> w2'" by auto
      from Cons.IH [OF sl this] have "h2 ! a = h1 ! a" "length h2 = length h1" by auto
      moreover from Cons.prems(1) Inr am r1 p sl have "h' = h2"
        by (auto split: sum.splits)
      ultimately show ?thesis using fr by simp
    qed
  qed
qed

text \<open>
  C8. For every circuit and every supplied initial state (the array at address \<open>a\<close> of
  the store), after fully consuming \<^verbatim>\<open>simulate_steps\<close>, and after \<^verbatim>\<open>simulate\<close>, the array at
  \<open>a\<close> holds what it held before, also when the run stops with an error: the engine
  writes into its own two copies only.
\<close>

theorem simulate_input_unchanged:
  assumes "a < length h"
  shows "snd (simulate_steps c (Some a) h) ! a = h ! a
       \<and> snd (simulate c (Some a) h) ! a = h ! a"
proof -
  let ?h2 = "h @ [h ! a] @ [h ! a] @ [replicate (length (h ! a)) 0]"
  let ?w1 = "Suc (length h)"
  let ?w2 = "Suc (Suc (length h))"
  have ss: "simulate_steps c (Some a) h
      = steps_loop c (map int [0..<nat (nmoment c)]) ?w1 ?w2 ?h2"
    using assms by (simp add: simulate_steps_def alloc_def nth_append)
  obtain r h' where sl: "steps_loop c (map int [0..<nat (nmoment c)]) ?w1 ?w2 ?h2 = (r, h')"
    by (cases "steps_loop c (map int [0..<nat (nmoment c)]) ?w1 ?w2 ?h2") auto
  from assms have "a \<noteq> ?w1" "a \<noteq> ?w2" by auto
  from steps_loop_frame [OF sl this] assms have "h' ! a = h ! a"
    by (simp add: nth_append)
  with ss sl show ?thesis
    by (auto simp: simulate_def split: sum.splits)
qed

theorem simulate_input_unchanged_witness:
  "(0::nat) < length [[1, 0 :: complex]]
   \<and> snd (simulate_steps \<lparr>circ_N = 1, gates = [((0, [0]), Gate_X)], Ts = [0], TAs = {(0, 0)}\<rparr>
            (Some 0) [[1, 0]]) ! 0 = [1, 0]
   \<and> snd (simulate \<lparr>circ_N = 1, gates = [((0, [0]), Gate_X)], Ts = [0], TAs = {(0, 0)}\<rparr>
            (Some 0) [[1, 0]]) ! 0 = [1, 0]"
  using simulate_input_unchanged
    [of 0 "[[1, 0]]" "\<lparr>circ_N = 1, gates = [((0, [0]), Gate_X)], Ts = [0], TAs = {(0, 0)}\<rparr>"]
  by simp

subsection \<open>Simulating a circuit without gates\<close>

text \<open>
  C10. For a circuit without moments (\<open>nmoment = 0\<close>), \<^verbatim>\<open>simulate\<close> returns its
  initial-state argument itself: the generator yields nothing, so the local \<^verbatim>\<open>wfn\<close> is never
  rebound. In particular \<^verbatim>\<open>simulate()\<close> without an initial state returns \<^verbatim>\<open>None\<close>, not the
  reference state, and a supplied array is returned as it is.
\<close>

theorem simulate_no_gates:
  assumes "nmoment c = 0" and "0 < circ_N c"
  shows "fst (simulate c wfn h) = Inr wfn
       \<and> fst (simulate c None h) = Inr None
       \<and> (\<forall>a. wfn = Some a \<and> a < length h \<longrightarrow> snd (simulate c wfn h) ! a = h ! a)"
  using assms
  by (auto simp: simulate_def simulate_steps_def alloc_def nth_append split: option.splits)

theorem simulate_no_gates_witness:
  "nmoment \<lparr>circ_N = 2, gates = [], Ts = [], TAs = {}\<rparr> = 0
   \<and> (0::int) < circ_N \<lparr>circ_N = 2, gates = [], Ts = [], TAs = {}\<rparr>
   \<and> fst (simulate \<lparr>circ_N = 2, gates = [], Ts = [], TAs = {}\<rparr> None []) = Inr None"
  using simulate_no_gates [of "\<lparr>circ_N = 2, gates = [], Ts = [], TAs = {}\<rparr>" None "[]"]
  by (simp add: nmoment_def)

subsection \<open>Two-body gate application and the order of the qubit arguments\<close>

lemma and_minus_pow2: "and ((2::int) ^ k) (- (2 ^ k)) = 2 ^ k"
  by (rule bit_eqI) (auto simp: bit_and_iff bit_exp_iff bit_minus_exp_iff)

lemma infer_N_pow2: "length w = 2 ^ k \<Longrightarrow> infer_N w = int k"
  using bitlen_pow2 [of 1 k] 
  by (simp add: infer_N_def and_minus_pow2 bitlen_alt_def)

lemma upt2: "[0..<2] = [0, Suc 0]"
  by code_simp

lemma upt4: "[0..<4] = [0, Suc 0, 2, 3]"
  by code_simp

lemma has_shape_swap_legs: "has_shape (swap_legs U) 4 4"
  by (simp add: swap_legs_def reshape_44_def has_shape_def upt4)

lemma reshape_swap_legs:
  "reshape_2222 (swap_legs U) = einsum_ijkl_jilk (reshape_2222 U)"
  by (simp add: swap_legs_def reshape_44_def reshape_2222_def einsum_ijkl_jilk_def upt2 upt4)

text \<open>
  C7. For a state vector of length \<open>2 ^ n\<close>, a \<open>4 \<times> 4\<close> matrix \<open>U\<close> and in-range qubits
  \<open>B < A\<close>, \<^verbatim>\<open>apply_gate_2(wfn1, wfn2, U, A, B)\<close> gives the same result as
  \<^verbatim>\<open>apply_gate_2(wfn1, wfn2, U', B, A)\<close>, where \<open>U'\<close> is \<open>U\<close> with its two output legs and its
  two input legs swapped pairwise; both succeed when the output array has length \<open>2 ^ n\<close>.
  \<^verbatim>\<open>apply_gate_2\<close> raises when \<open>A = B\<close>, when \<open>U\<close> is not \<open>4 \<times> 4\<close>, when the length of the
  input array is not a power of two, and when the output array has another length than the
  input array.
\<close>

theorem apply_gate_2_swapped_args:
  "(has_shape U 4 4 \<and> length wfn1 = 2 ^ n \<and> 0 \<le> B \<and> B < A \<and> A < int n \<longrightarrow>
      apply_gate_2 wfn1 wfn2 U A B = apply_gate_2 wfn1 wfn2 (swap_legs U) B A
      \<and> (length wfn2 = 2 ^ n \<longrightarrow>
           apply_gate_2 wfn1 wfn2 U A B =
             Inr (einsum_LkMlR_ijkl (2 ^ nat B) (2 ^ nat (A - B - 1)) (2 ^ nat (int n - A - 1))
                    wfn1 (reshape_2222 (swap_legs U)))))
   \<and> (A = B \<or> \<not> has_shape U 4 4 \<or> (\<forall>k. length wfn1 \<noteq> 2 ^ k)
        \<or> length wfn2 \<noteq> length wfn1 \<longrightarrow>
      isl (apply_gate_2 wfn1 wfn2 U A B))"
proof (intro conjI impI)
  assume h: "has_shape U 4 4 \<and> length wfn1 = 2 ^ n \<and> 0 \<le> B \<and> B < A \<and> A < int n"
  then have n: "infer_N wfn1 = int n"
    by (simp add: infer_N_pow2)
  from h n show eq: "apply_gate_2 wfn1 wfn2 U A B = apply_gate_2 wfn1 wfn2 (swap_legs U) B A"
    by (simp add: apply_gate_2_def has_shape_swap_legs reshape_swap_legs)
  assume "length wfn2 = 2 ^ n"
  with h n show "apply_gate_2 wfn1 wfn2 U A B =
      Inr (einsum_LkMlR_ijkl (2 ^ nat B) (2 ^ nat (A - B - 1)) (2 ^ nat (int n - A - 1))
             wfn1 (reshape_2222 (swap_legs U)))"
    by (simp add: apply_gate_2_def reshape_swap_legs)
next
  assume f: "A = B \<or> \<not> has_shape U 4 4 \<or> (\<forall>k. length wfn1 \<noteq> 2 ^ k)
        \<or> length wfn2 \<noteq> length wfn1"
  show "isl (apply_gate_2 wfn1 wfn2 U A B)"
  proof (cases "infer_N wfn1 < 0 \<or> length wfn1 \<noteq> 2 ^ nat (infer_N wfn1)")
    case True
    then show ?thesis
      by (auto simp: apply_gate_2_def Let_def)
  next
    case False
    with f have "A = B \<or> \<not> has_shape U 4 4 \<or> length wfn2 \<noteq> 2 ^ nat (infer_N wfn1)"
      by auto
    then show ?thesis
      by (auto simp: apply_gate_2_def Let_def)
  qed
qed

theorem apply_gate_2_swapped_args_witness:
  "has_shape Matrix_CX 4 4 \<and> length [0, 1, 0, 0 :: complex] = 2 ^ 2 \<and> (0::int) \<le> 0
   \<and> (0::int) < 1 \<and> (1::int) < int 2
   \<and> apply_gate_2 [0, 1, 0, 0] [0, 0, 0, 0] Matrix_CX 1 0
       = apply_gate_2 [0, 1, 0, 0] [0, 0, 0, 0] (swap_legs Matrix_CX) 0 1
   \<and> apply_gate_2 [0, 1, 0, 0] [0, 0, 0, 0] Matrix_CX 1 0 = Inr [0, 0, 0, 1]
   \<and> isl (apply_gate_2 [0, 1, 0, 0] [0, 0, 0, 0] Matrix_CX 1 1)"
proof -
  have hyp: "has_shape Matrix_CX 4 4 \<and> length [0, 1, 0, 0 :: complex] = 2 ^ 2
      \<and> (0::int) \<le> 0 \<and> (0::int) < 1 \<and> (1::int) < int 2"
    by (simp add: has_shape_def Matrix_CX_def)
  have len: "length [0, 0, 0, 0 :: complex] = 2 ^ 2"
    by simp
  note inst = apply_gate_2_swapped_args [of Matrix_CX "[0, 1, 0, 0]" 2 0 1 "[0, 0, 0, 0]"]
  from inst hyp have swapped: "apply_gate_2 [0, 1, 0, 0] [0, 0, 0, 0] Matrix_CX 1 0
       = apply_gate_2 [0, 1, 0, 0] [0, 0, 0, 0] (swap_legs Matrix_CX) 0 1"
    by blast
  from inst hyp len have "apply_gate_2 [0, 1, 0, 0] [0, 0, 0, 0] Matrix_CX 1 0
      = Inr (einsum_LkMlR_ijkl (2 ^ nat 0) (2 ^ nat (1 - 0 - 1)) (2 ^ nat (int 2 - 1 - 1))
               [0, 1, 0, 0] (reshape_2222 (swap_legs Matrix_CX)))"
    by blast
  also have "einsum_LkMlR_ijkl (2 ^ nat 0) (2 ^ nat (1 - 0 - 1)) (2 ^ nat (int 2 - 1 - 1))
               [0, 1, 0, 0] (reshape_2222 (swap_legs Matrix_CX)) = [0, 0, 0, 1]"
    by (simp add: Matrix_CX_def swap_legs_def reshape_44_def reshape_2222_def
        einsum_ijkl_jilk_def einsum_LkMlR_ijkl_def upt2 upt4 upt_rec_numeral)
  finally have val: "apply_gate_2 [0, 1, 0, 0] [0, 0, 0, 0] Matrix_CX 1 0 = Inr [0, 0, 0, 1]" .
  from apply_gate_2_swapped_args [of Matrix_CX "[0, 1, 0, 0]" 2 1 1 "[0, 0, 0, 0]"]
  have "isl (apply_gate_2 [0, 1, 0, 0] [0, 0, 0, 0] Matrix_CX 1 1)"
    by blast
  with hyp swapped val show ?thesis
    by blast
qed

subsection \<open>One Hadamard gate on the reference state\<close>

lemma ref_state_nth: "k < m \<Longrightarrow> ref_state m ! k = (if k = 0 then 1 else 0)"
  by (simp add: ref_state_def nth_list_update)

lemma flat_index_bound:
  fixes idx L R j r :: nat
  assumes "idx < L * 2 * R" and "j < 2" and "r < R"
  shows "(idx div (2 * R) * 2 + j) * R + r < L * 2 * R"
proof -
  have "idx div (2 * R) < L"
    using assms(1) by (simp add: less_mult_imp_div_less mult.commute mult.left_commute)
  then have "Suc (idx div (2 * R)) \<le> L" by simp
  then have "Suc (idx div (2 * R)) * (2 * R) \<le> L * (2 * R)"
    by (rule mult_le_mono1)
  moreover have "(idx div (2 * R) * 2 + j) * R + r < Suc (idx div (2 * R)) * (2 * R)"
  proof -
    have "(idx div (2 * R) * 2 + j) * R + r < (idx div (2 * R) * 2 + j) * R + R"
      using assms(3) by simp
    also have "\<dots> = (idx div (2 * R) * 2 + Suc j) * R" by (simp add: algebra_simps)
    also have "\<dots> \<le> (idx div (2 * R) * 2 + 2) * R"
      using assms(2) by (intro mult_le_mono1) simp
    also have "\<dots> = Suc (idx div (2 * R)) * (2 * R)" by (simp add: algebra_simps)
    finally show ?thesis .
  qed
  ultimately show ?thesis by (simp add: mult.assoc)
qed

lemma zero_or_R_iff:
  fixes idx R :: nat
  assumes "0 < R"
  shows "(idx div (2 * R) = 0 \<and> idx mod R = 0) \<longleftrightarrow> (idx = 0 \<or> idx = R)"
proof
  assume a: "idx div (2 * R) = 0 \<and> idx mod R = 0"
  then have lt: "idx < 2 * R" using assms
    by (simp add: div_eq_0_iff)
  from a obtain k where k: "idx = R * k" by (auto simp: mod_eq_0_iff_dvd)
  with lt assms have "k < 2" by simp
  then have "k = 0 \<or> k = 1" by auto
  with k show "idx = 0 \<or> idx = R" by auto
next
  assume "idx = 0 \<or> idx = R"
  with assms show "idx div (2 * R) = 0 \<and> idx mod R = 0" by auto
qed

lemma hadamard_state_nth:
  assumes "0 < L" and "0 < R" and "idx < L * 2 * R"
  shows "einsum_LjR_ij L R (ref_state (L * 2 * R)) Matrix_H ! idx
         = (if idx = 0 \<or> idx = R then complex_of_real (1 / sqrt 2) else 0)"
proof -
  let ?l = "idx div (2 * R)" and ?i = "(idx div R) mod 2" and ?r = "idx mod R"
  have r: "?r < R" using assms(2) by simp
  have b0: "(?l * 2 + 0) * R + ?r < L * 2 * R"
    by (rule flat_index_bound [OF assms(3) _ r]) simp
  have b1: "(?l * 2 + 1) * R + ?r < L * 2 * R"
    by (rule flat_index_bound [OF assms(3) _ r]) simp
  have i: "?i = 0 \<or> ?i = 1" by auto
  have H0: "Matrix_H ! ?i ! 0 = complex_of_real (1 / sqrt 2)"
    using i by (auto simp: Matrix_H_def)
  have e0: "ref_state (L * 2 * R) ! ((?l * 2 + 0) * R + ?r) = (if ?l = 0 \<and> ?r = 0 then 1 else 0)"
    using ref_state_nth [OF b0] assms(2) by auto
  have e1: "ref_state (L * 2 * R) ! ((?l * 2 + 1) * R + ?r) = 0"
    using ref_state_nth [OF b1] assms(2) by auto
  have "einsum_LjR_ij L R (ref_state (L * 2 * R)) Matrix_H ! idx
      = ref_state (L * 2 * R) ! ((?l * 2 + 0) * R + ?r) * Matrix_H ! ?i ! 0
        + ref_state (L * 2 * R) ! ((?l * 2 + 1) * R + ?r) * Matrix_H ! ?i ! 1"
    using assms(3) by (simp add: einsum_LjR_ij_def Let_def upt2 del: upt_Suc)
  also have "\<dots> = (if ?l = 0 \<and> ?r = 0 then complex_of_real (1 / sqrt 2) else 0)"
    by (simp only: e0 e1 H0) simp
  also have "\<dots> = (if idx = 0 \<or> idx = R then complex_of_real (1 / sqrt 2) else 0)"
    using zero_or_R_iff [OF assms(2), of idx] by simp
  finally show ?thesis .
qed


lemma length_ref_state: "length (ref_state m) = m"
  by (simp add: ref_state_def)

lemma length_einsum_LjR_ij: "length (einsum_LjR_ij L R w U) = L * 2 * R"
  by (simp add: einsum_LjR_ij_def)

lemma has_shape_Matrix_H: "has_shape Matrix_H 2 2"
  by (simp add: has_shape_def Matrix_H_def)

lemma pow2_split:
  assumes "a < m"
  shows "(2::nat) ^ m = 2 ^ a * 2 * 2 ^ (m - a - 1)"
proof -
  have "m = a + 1 + (m - a - 1)" using assms by simp
  then have "(2::nat) ^ m = 2 ^ (a + 1 + (m - a - 1))" by simp
  then show ?thesis by (simp only: power_add) simp
qed

lemma apply_gate_1_H_ref:
  assumes "0 \<le> A" and "A < int m" and "length w2 = 2 ^ m"
  shows "apply_gate_1 (ref_state (2 ^ m)) w2 Matrix_H A
         = Inr (einsum_LjR_ij (2 ^ nat A) (2 ^ (m - nat A - 1))
                  (ref_state (2 ^ nat A * 2 * 2 ^ (m - nat A - 1))) Matrix_H)"
proof -
  have n: "infer_N (ref_state (2 ^ m)) = int m"
    by (rule infer_N_pow2) (simp add: length_ref_state)
  have "nat (int m - A - 1) = m - nat A - 1" using assms by simp
  moreover have "(2::nat) ^ m = 2 ^ nat A * 2 * 2 ^ (m - nat A - 1)"
    using assms by (intro pow2_split) simp
  ultimately show ?thesis
    using assms n by (simp add: apply_gate_1_def has_shape_Matrix_H length_ref_state)
qed


lemma gate_copy_Gate_H: "gate_copy Gate_H = Inr Gate_H"
  by (simp add: gate_copy_def Gate_init_def Gate_H_def has_shape_Matrix_H)

text \<open>
  C2. For every \<open>n \<ge> 1\<close>, the \<open>n\<close>-qubit circuit built by adding one Hadamard gate at
  moment 0, qubit 0, simulated from the default initial state, returns a state vector of
  length \<open>2 ^ n\<close> whose amplitude is \<open>1 / sqrt 2\<close> at the indices \<open>0\<close> and \<open>2 ^ (n - 1)\<close> and
  \<open>0\<close> at every other index: qubit 0 is the most significant bit of the index.
\<close>

theorem hadamard_first_qubit:
  assumes "1 \<le> n" and "Circuit_init n = Inr c0" and "add_gate c0 0 (KInt 0) Gate_H = (r, c1)"
  shows "r = None
       \<and> (\<exists>a h'. simulate c1 None h = (Inr (Some a), h') \<and> a < length h'
            \<and> length (h' ! a) = 2 ^ nat n
            \<and> (\<forall>i < 2 ^ nat n. h' ! a ! i =
                  (if i = 0 \<or> i = 2 ^ (nat n - 1) then complex_of_real (1 / sqrt 2) else 0)))"
proof -
  define m where "m = nat n"
  have m: "0 < m" "n = int m" using assms(1) by (simp_all add: m_def)
  have c0: "c0 = \<lparr>circ_N = n, gates = [], Ts = [], TAs = {}\<rparr>"
    using assms(1,2) by (simp add: Circuit_init_def)
  have r: "r = None"
    and c1: "c1 = \<lparr>circ_N = n, gates = [((0, [0]), Gate_H)], Ts = [0], TAs = {(0, 0)}\<rparr>"
    using assms(1,3) by (auto simp: c0 add_gate_def dict_set_def Gate_H_def Let_def)
  have nm: "nmoment c1 = 1"
    by (simp add: c1 nmoment_def)
  have sub: "subset c1 [0] True = Inr c1"
    using assms(1)
    by (simp add: subset_def Circuit_init_def nm [unfolded c1] gate_copy_Gate_H add_gate_r_def
        add_gate_def dict_set_def c1 Let_def) (simp add: Gate_H_def)
  define v where "v = einsum_LjR_ij 1 (2 ^ (m - 1)) (ref_state (1 * 2 * 2 ^ (m - 1))) Matrix_H"
  have ag: "apply_gate_1 (ref_state (2 ^ m)) (replicate (2 ^ m) 0) Matrix_H 0 = Inr v"
    using apply_gate_1_H_ref [of 0 m "replicate (2 ^ m) 0"] m by (simp add: v_def)
  define h2 where "h2 = h @ [ref_state (2 ^ m), ref_state (2 ^ m), replicate (2 ^ m) 0]"
  have sim: "simulate c1 None h = (Inr (Some (length h + 2)), h2[length h + 2 := v])"
    using m ag
    by (simp add: simulate_def simulate_steps_def alloc_def nm sub)
      (simp add: c1 nth_append length_ref_state gate_U_def Gate_H_def h2_def)
  have len: "length v = 2 ^ m"
    using pow2_split [of 0 m] m by (simp add: v_def length_einsum_LjR_ij)
  have val: "v ! i = (if i = 0 \<or> i = 2 ^ (m - 1) then complex_of_real (1 / sqrt 2) else 0)"
    if "i < 2 ^ m" for i
  proof -
    have "i < 1 * 2 * 2 ^ (m - 1)" using that pow2_split [of 0 m] m by simp
    from hadamard_state_nth [OF _ _ this] show ?thesis by (simp add: v_def)
  qed
  have "length h + 2 < length (h2[length h + 2 := v])"
    by (simp add: h2_def)
  moreover have "h2[length h + 2 := v] ! (length h + 2) = v"
    by (simp add: h2_def)
  ultimately show ?thesis
    using r sim len val by (simp add: m_def)
qed


theorem hadamard_first_qubit_witness:
  "(1::int) \<le> 2
   \<and> Circuit_init 2 = Inr \<lparr>circ_N = 2, gates = [], Ts = [], TAs = {}\<rparr>
   \<and> add_gate \<lparr>circ_N = 2, gates = [], Ts = [], TAs = {}\<rparr> 0 (KInt 0) Gate_H
       = (None, \<lparr>circ_N = 2, gates = [((0, [0]), Gate_H)], Ts = [0], TAs = {(0, 0)}\<rparr>)
   \<and> (\<exists>a h'. simulate \<lparr>circ_N = 2, gates = [((0, [0]), Gate_H)], Ts = [0], TAs = {(0, 0)}\<rparr>
                None [] = (Inr (Some a), h')
          \<and> h' ! a ! 0 = complex_of_real (1 / sqrt 2) \<and> h' ! a ! 1 = 0
          \<and> h' ! a ! 2 = complex_of_real (1 / sqrt 2) \<and> h' ! a ! 3 = 0)"
proof -
  have init: "Circuit_init 2 = Inr \<lparr>circ_N = 2, gates = [], Ts = [], TAs = {}\<rparr>"
    by (simp add: Circuit_init_def)
  have add: "add_gate \<lparr>circ_N = 2, gates = [], Ts = [], TAs = {}\<rparr> 0 (KInt 0) Gate_H
       = (None, \<lparr>circ_N = 2, gates = [((0, [0]), Gate_H)], Ts = [0], TAs = {(0, 0)}\<rparr>)"
    by (simp add: add_gate_def dict_set_def Gate_H_def Let_def)
  from hadamard_first_qubit [OF _ init add, of "[]"]
  obtain a h' where
    sim: "simulate \<lparr>circ_N = 2, gates = [((0, [0]), Gate_H)], Ts = [0], TAs = {(0, 0)}\<rparr>
            None [] = (Inr (Some a), h')"
    and val: "\<forall>i<2 ^ nat 2. h' ! a ! i =
            (if i = 0 \<or> i = 2 ^ (nat 2 - 1) then complex_of_real (1 / sqrt 2) else 0)"
    by auto
  from val have "h' ! a ! 0 = complex_of_real (1 / sqrt 2)" "h' ! a ! 1 = 0"
    "h' ! a ! 2 = complex_of_real (1 / sqrt 2)" "h' ! a ! 3 = 0"
    by simp_all
  with init add sim show ?thesis by auto
qed

subsection \<open>Pauli expectation values of one qubit\<close>

lemma flat_index_bound2:
  fixes l i r L R :: nat
  assumes "l < L" and "i < 2" and "r < R"
  shows "(l * 2 + i) * R + r < L * 2 * R"
proof -
  have "(l * 2 + i) * R + r < (l * 2 + i) * R + R" using assms(3) by simp
  also have "\<dots> = (l * 2 + Suc i) * R" by (simp add: algebra_simps)
  also have "\<dots> \<le> (Suc l * 2) * R" using assms(2) by (intro mult_le_mono1) simp
  also have "\<dots> \<le> (L * 2) * R" using assms(1) by (intro mult_le_mono1) simp
  finally show ?thesis .
qed

lemma sum_list_upt_single:
  fixes c :: complex
  assumes "0 < L" and "0 < R"
  shows "(\<Sum>l\<leftarrow>[0..<L]. \<Sum>r\<leftarrow>[0..<R]. (if l = 0 \<and> r = 0 then c else 0)) = c"
proof -
  have inner: "(\<Sum>r\<leftarrow>[0..<R]. (if l = 0 \<and> r = 0 then c else 0)) = (if l = 0 then c else 0)" for l
    using assms(2) by (simp add: interv_sum_list_conv_sum_set_nat sum.delta' if_distrib cong: if_cong)
  show ?thesis
    using assms(1) by (simp only: inner) (simp add: interv_sum_list_conv_sum_set_nat sum.delta')
qed

lemma einsum_LiR_LjR_support:
  assumes "0 < L" and "0 < R" and "length w = L * 2 * R"
    and supp: "\<And>l i r. l < L \<Longrightarrow> i < 2 \<Longrightarrow> r < R \<Longrightarrow>
            w ! ((l * 2 + i) * R + r) = (if l = 0 \<and> r = 0 then a i else 0)"
  shows "einsum_LiR_LjR L R (map cnj w) w
         = [[cnj (a 0) * a 0, cnj (a 0) * a 1], [cnj (a 1) * a 0, cnj (a 1) * a 1]]"
proof -
  have entry: "(\<Sum>l\<leftarrow>[0..<L]. \<Sum>r\<leftarrow>[0..<R].
                  map cnj w ! ((l * 2 + i) * R + r) * w ! ((l * 2 + j) * R + r))
               = cnj (a i) * a j" if "i < 2" and "j < 2" for i j
  proof -
    have "(\<Sum>l\<leftarrow>[0..<L]. \<Sum>r\<leftarrow>[0..<R].
              map cnj w ! ((l * 2 + i) * R + r) * w ! ((l * 2 + j) * R + r))
          = (\<Sum>l\<leftarrow>[0..<L]. \<Sum>r\<leftarrow>[0..<R]. (if l = 0 \<and> r = 0 then cnj (a i) * a j else 0))"
    proof (intro arg_cong [where f = sum_list] map_cong refl)
      fix l r assume "l \<in> set [0..<L]" and "r \<in> set [0..<R]"
      then have lr: "l < L" "r < R" by simp_all
      have "(l * 2 + i) * R + r < length w"
        using flat_index_bound2 [OF lr(1) that(1) lr(2)] assms(3) by simp
      then show "map cnj w ! ((l * 2 + i) * R + r) * w ! ((l * 2 + j) * R + r)
            = (if l = 0 \<and> r = 0 then cnj (a i) * a j else 0)"
        using supp [OF lr(1) that(1) lr(2)] supp [OF lr(1) that(2) lr(2)] by simp
    qed
    then show ?thesis using sum_list_upt_single [OF assms(1,2)] by simp
  qed
  show ?thesis
    using entry [of 0 0] entry [of 0 1] entry [of 1 0] entry [of 1 1]
    by (simp add: einsum_LiR_LjR_def upt2)
qed


lemma flat_index_zero_iff:
  fixes l i r R :: nat
  assumes "0 < R"
  shows "(l * 2 + i) * R + r = 0 \<longleftrightarrow> l = 0 \<and> i = 0 \<and> r = 0"
  using assms by auto

lemma flat_index_R_iff:
  fixes l i r R :: nat
  assumes "0 < R" and "r < R" and "i < 2"
  shows "(l * 2 + i) * R + r = R \<longleftrightarrow> l = 0 \<and> i = 1 \<and> r = 0"
proof
  assume eq: "(l * 2 + i) * R + r = R"
  have "l * 2 + i = 1"
  proof (rule ccontr)
    assume "l * 2 + i \<noteq> 1"
    then consider "l * 2 + i = 0" | "2 \<le> l * 2 + i" by linarith
    then show False
    proof cases
      case 1
      with eq assms(2) show False by simp
    next
      case 2
      then have "2 * R \<le> (l * 2 + i) * R" by (intro mult_le_mono1)
      with eq assms(1) show False by simp
    qed
  qed
  then have "l = 0 \<and> i = 1" by arith
  with eq show "l = 0 \<and> i = 1 \<and> r = 0" by simp
next
  assume "l = 0 \<and> i = 1 \<and> r = 0"
  then show "(l * 2 + i) * R + r = R" by simp
qed

lemma compute_1pdm_pow2:
  assumes "0 \<le> A" and "A < int m" and "length w = 2 ^ m"
  shows "compute_1pdm w w A
         = Inr (einsum_LiR_LjR (2 ^ nat A) (2 ^ (m - nat A - 1)) (map cnj w) w)"
proof -
  have n: "infer_N w = int m"
    by (rule infer_N_pow2) (rule assms(3))
  have "nat (int m - A - 1) = m - nat A - 1" using assms by simp
  then show ?thesis
    using assms n by (simp add: compute_1pdm_def)
qed

text \<open>
  C9. For every \<open>m \<ge> 1\<close> qubits and every qubit \<open>0 \<le> A < m\<close>, \<^verbatim>\<open>compute_pauli_1\<close> at \<open>A\<close>
  returns \<open>[I, X, Y, Z] = [1, 0, 0, 1]\<close> on the all-zero basis state, and \<open>[1, 1, 0, 0]\<close> on
  the state that \<^verbatim>\<open>apply_gate_1\<close> produces from it with the Hadamard matrix on qubit \<open>A\<close>.
\<close>

theorem compute_pauli_1_reference_and_hadamard:
  assumes "1 \<le> m" and "0 \<le> A" and "A < int m" and "length w2 = 2 ^ m"
  shows "compute_pauli_1 (ref_state (2 ^ m)) A = Inr [1, 0, 0, 1]
       \<and> (\<exists>v. apply_gate_1 (ref_state (2 ^ m)) w2 Matrix_H A = Inr v
              \<and> compute_pauli_1 v A = Inr [1, 1, 0, 0])"
proof -
  define L :: nat where "L = 2 ^ nat A"
  define R :: nat where "R = 2 ^ (m - nat A - 1)"
  have pos: "0 < L" "0 < R" by (simp_all add: L_def R_def)
  have split: "(2::nat) ^ m = L * 2 * R"
    unfolding L_def R_def using assms by (intro pow2_split) simp
  \<comment> \<open>the reference state\<close>
  have supp0: "ref_state (2 ^ m) ! ((l * 2 + i) * R + r)
        = (if l = 0 \<and> r = 0 then (if i = 0 then 1 else 0) else 0)"
    if "l < L" "i < 2" "r < R" for l i r
    using ref_state_nth [of "(l * 2 + i) * R + r" "2 ^ m"] flat_index_bound2 [OF that]
      flat_index_zero_iff [OF pos(2), of l i r]
    by (simp only: split) auto
  have D0: "einsum_LiR_LjR L R (map cnj (ref_state (2 ^ m))) (ref_state (2 ^ m))
        = [[1, 0], [0, 0]]"
    using einsum_LiR_LjR_support [OF pos _ supp0] split
    by (simp add: length_ref_state)
  have p0: "compute_pauli_1 (ref_state (2 ^ m)) A = Inr [1, 0, 0, 1]"
    using compute_1pdm_pow2 [OF assms(2,3), of "ref_state (2 ^ m)"] D0
    by (simp add: compute_pauli_1_def length_ref_state L_def R_def)
  \<comment> \<open>the state after the Hadamard gate on qubit \<open>A\<close>\<close>
  define v where "v = einsum_LjR_ij L R (ref_state (L * 2 * R)) Matrix_H"
  have ag: "apply_gate_1 (ref_state (2 ^ m)) w2 Matrix_H A = Inr v"
    using apply_gate_1_H_ref [OF assms(2,3,4)] by (simp add: v_def L_def R_def)
  have lenv: "length v = 2 ^ m"
    by (simp add: v_def length_einsum_LjR_ij split)
  define s where "s = complex_of_real (1 / sqrt 2)"
  have suppH: "v ! ((l * 2 + i) * R + r) = (if l = 0 \<and> r = 0 then s else 0)"
    if "l < L" "i < 2" "r < R" for l i r
  proof -
    have "v ! ((l * 2 + i) * R + r)
        = (if (l * 2 + i) * R + r = 0 \<or> (l * 2 + i) * R + r = R
           then complex_of_real (1 / sqrt 2) else 0)"
      unfolding v_def by (rule hadamard_state_nth [OF pos flat_index_bound2 [OF that]])
    also have "((l * 2 + i) * R + r = 0 \<or> (l * 2 + i) * R + r = R) \<longleftrightarrow> (l = 0 \<and> r = 0)"
      using flat_index_zero_iff [OF pos(2), of l i r] flat_index_R_iff [OF pos(2) that(3,2), of l]
        that(2)
      by auto
    finally show ?thesis by (simp add: s_def)
  qed
  have half: "cnj s * s = 1 / 2"
    by (simp add: s_def complex_eq_iff)
  have DH: "einsum_LiR_LjR L R (map cnj v) v = [[1 / 2, 1 / 2], [1 / 2, 1 / 2]]"
    using einsum_LiR_LjR_support [OF pos _ suppH] split lenv
    by (simp add: half)
  have pH: "compute_pauli_1 v A = Inr [1, 1, 0, 0]"
    using compute_1pdm_pow2 [OF assms(2,3) lenv] DH
    by (simp add: compute_pauli_1_def L_def R_def)
  from p0 ag pH show ?thesis by blast
qed


theorem compute_pauli_1_reference_and_hadamard_witness:
  "(1::nat) \<le> 2 \<and> (0::int) \<le> 1 \<and> (1::int) < int 2 \<and> length [0, 0, 0, 0 :: complex] = 2 ^ 2
   \<and> compute_pauli_1 (ref_state (2 ^ 2)) 1 = Inr [1, 0, 0, 1]
   \<and> (\<exists>v. apply_gate_1 (ref_state (2 ^ 2)) [0, 0, 0, 0] Matrix_H 1 = Inr v
          \<and> compute_pauli_1 v 1 = Inr [1, 1, 0, 0])"
  using compute_pauli_1_reference_and_hadamard [of 2 1 "[0, 0, 0, 0]"]
  by simp


subsection \<open>The invariant of circuits\<close>

lemma slots_Nil [simp]: "slots [] = {}"
  by (simp add: slots_def)

lemma slots_Cons [simp]: "slots (((T, k), g) # gs) = (\<lambda>A. (T, A)) ` set k \<union> slots gs"
  by (simp add: slots_def)

lemma slots_append [simp]: "slots (gs @ hs) = slots gs \<union> slots hs"
  by (auto simp: slots_def)

lemma placements_ok_append:
  "placements_ok n (gs @ hs) \<longleftrightarrow>
     placements_ok n gs \<and> placements_ok n hs \<and> slots gs \<inter> slots hs = {}"
proof (induction gs)
  case Nil
  then show ?case by simp
next
  case (Cons x gs)
  obtain T k g where x: "x = ((T, k), g)" by (cases x) auto
  show ?case unfolding x using Cons.IH by auto
qed

lemma key_in_slots:
  "((T, k), g) \<in> set gs \<Longrightarrow> A \<in> set k \<Longrightarrow> (T, A) \<in> slots gs"
  by (force simp: slots_def)

lemma placements_ok_distinct_keys:
  "placements_ok n gs \<Longrightarrow> distinct (map fst gs)"
proof (induction gs)
  case Nil
  then show ?case by simp
next
  case (Cons x gs)
  obtain T k g where x: "x = ((T, k), g)" by (cases x) auto
  from Cons.prems x obtain A where A: "A \<in> set k" "(T, A) \<notin> slots gs"
    by (cases k) auto
  have "(T, k) \<notin> fst ` set gs"
  proof
    assume "(T, k) \<in> fst ` set gs"
    then obtain g' where "((T, k), g') \<in> set gs" by auto
    from key_in_slots [OF this A(1)] A(2) show False by simp
  qed
  with Cons x show ?case by auto
qed

lemma foldl_insert_slots:
  "foldl (\<lambda>s A. insert (T, A) s) S k = (\<lambda>A. (T, A)) ` set k \<union> S"
  by (induction k arbitrary: S) auto

lemma sort_remdups_snoc:
  "(if T \<in> set (sort (remdups Tl)) then sort (remdups Tl) else sort (sort (remdups Tl) @ [T]))
   = sort (remdups (Tl @ [T]))"
proof -
  have "sorted (sort (remdups (Tl @ [T])))" "distinct (sort (remdups (Tl @ [T])))" by simp_all
  show ?thesis
  proof (cases "T \<in> set Tl")
    case True
    then have "set (remdups (Tl @ [T])) = set (remdups Tl)" by auto
    then have "sort (remdups (Tl @ [T])) = sort (remdups Tl)"
      by (intro sorted_distinct_set_unique) simp_all
    with True show ?thesis by simp
  next
    case False
    then have "sort (sort (remdups Tl) @ [T]) = sort (remdups (Tl @ [T]))"
      by (intro sorted_distinct_set_unique) auto
    with False show ?thesis by simp
  qed
qed

lemma add_gate_r_ok:
  assumes "circuit_inv c" and "placements_ok (circ_N c) (gates c @ [((T, k), g)])"
  shows "add_gate_r c T k g = Inr (c\<lparr>gates := gates c @ [((T, k), g)],
            TAs := slots (gates c @ [((T, k), g)]),
            Ts := sort (remdups (map (\<lambda>x. fst (fst x)) (gates c @ [((T, k), g)])))\<rparr>)"
proof -
  from assms(2) have ok: "placements_ok (circ_N c) (gates c)" "0 \<le> T" "k \<noteq> []"
    "int (length k) = gate_N g" "\<forall>A \<in> set k. A < circ_N c"
    and disj: "slots (gates c) \<inter> (\<lambda>A. (T, A)) ` set k = {}"
    by (auto simp: placements_ok_append)
  from assms(1) have TAs: "TAs c = slots (gates c)"
    and Ts: "Ts c = sort (remdups (map (\<lambda>x. fst (fst x)) (gates c)))"
    by (simp_all add: circuit_inv_def)
  have open_ok: "check_open c T k = None"
    using ok(5) disj TAs by (auto simp: check_open_None_iff)
  have "distinct (map fst (gates c @ [((T, k), g)]))"
    using assms(2) by (rule placements_ok_distinct_keys)
  then have fresh: "(T, k) \<notin> set (map fst (gates c))" by auto
  have Ts': "(if T \<in> set (Ts c) then Ts c else sort (Ts c @ [T]))
      = sort (remdups (map (\<lambda>x. fst (fst x)) (gates c @ [((T, k), g)])))"
    using sort_remdups_snoc [of T "map (\<lambda>x. fst (fst x)) (gates c)"]
    by (simp add: Ts split: if_splits)
  show ?thesis
    using ok(2,4) open_ok fresh
    by (simp add: add_gate_r_def add_gate_def dict_set_def foldl_insert_slots TAs Ts' Un_commute)
qed

lemma add_gate_r_inv:
  assumes "circuit_inv c" and "placements_ok (circ_N c) (gates c @ [((T, k), g)])"
  shows "\<exists>c'. add_gate_r c T k g = Inr c' \<and> circuit_inv c' \<and> circ_N c' = circ_N c
            \<and> gates c' = gates c @ [((T, k), g)]"
  using add_gate_r_ok [OF assms] assms by (simp add: circuit_inv_def)

text \<open>
  The invariant holds of the new circuit and is kept by every successful \<^verbatim>\<open>add_gate\<close> of a
  gate of positive arity.
\<close>

lemma circuit_inv_init: "Circuit_init n = Inr c \<Longrightarrow> circuit_inv c"
  by (auto simp: Circuit_init_def circuit_inv_def split: if_splits)

lemma circuit_inv_add_gate:
  assumes "circuit_inv c" and "0 < gate_N g" and "add_gate c T key g = (None, c')"
  shows "circuit_inv c'"
proof -
  let ?k = "key_tuple key"
  from assms(3) have T: "0 \<le> T" and len: "int (length ?k) = gate_N g"
    and op: "check_open c T ?k = None"
    by (auto simp: add_gate_def Let_def split: if_splits option.splits)
  from assms(1) have TAs: "TAs c = slots (gates c)" by (simp add: circuit_inv_def)
  from len assms(2) have ne: "?k \<noteq> []" by auto
  have "placements_ok (circ_N c) (gates c @ [((T, ?k), g)])"
    using assms(1) T len ne op
    by (auto simp: placements_ok_append circuit_inv_def check_open_None_iff)
  from add_gate_r_inv [OF assms(1) this] obtain c'' where
    "add_gate_r c T ?k g = Inr c''" "circuit_inv c''" by auto
  moreover have "add_gate c T (KTuple ?k) g = add_gate c T key g"
    by (simp add: add_gate_def)
  ultimately show ?thesis using assms(3) by (simp add: add_gate_r_def)
qed


subsection \<open>Reversing the time axis\<close>

lemma circuit_inv_eqI:
  "circuit_inv c \<Longrightarrow> circuit_inv c' \<Longrightarrow> circ_N c' = circ_N c \<Longrightarrow> gates c' = gates c
     \<Longrightarrow> c' = c"
  by (simp add: circuit_inv_def)

lemma reversed_loop_ok:
  assumes "circuit_inv circ"
    and "placements_ok (circ_N circ)
           (gates circ @ map (\<lambda>((T, k), g). ((nm - T - 1, k), g)) gs)"
  shows "\<exists>c'. reversed_loop nm gs circ = Inr c' \<and> circuit_inv c' \<and> circ_N c' = circ_N circ
            \<and> gates c' = gates circ @ map (\<lambda>((T, k), g). ((nm - T - 1, k), g)) gs"
  using assms
proof (induction gs arbitrary: circ)
  case Nil
  then show ?case by simp
next
  case (Cons x gs)
  obtain T k g where x: "x = ((T, k), g)" by (cases x) auto
  from Cons.prems(2) have "placements_ok (circ_N circ) (gates circ @ [((nm - T - 1, k), g)])"
    by (auto simp: x placements_ok_append)
  from add_gate_r_inv [OF Cons.prems(1) this] obtain c1 where
    c1: "add_gate_r circ (nm - T - 1) k g = Inr c1" "circuit_inv c1" "circ_N c1 = circ_N circ"
      "gates c1 = gates circ @ [((nm - T - 1, k), g)]"
    by auto
  from Cons.prems(2) have "placements_ok (circ_N c1)
      (gates c1 @ map (\<lambda>((T, k), g). ((nm - T - 1, k), g)) gs)"
    by (simp add: x c1)
  from Cons.IH [OF c1(2) this] show ?case
    by (simp add: x c1)
qed

lemma slots_reversed:
  "slots (map (\<lambda>((T, k), g). ((nm - T - 1, k), g)) gs)
   = (\<lambda>(T, A). (nm - T - 1, A)) ` slots gs"
proof (induction gs)
  case Nil
  then show ?case by simp
next
  case (Cons x gs)
  obtain T k g where x: "x = ((T, k), g)" by (cases x) auto
  show ?case unfolding x using Cons.IH by (auto simp: image_Un image_image)
qed

lemma placements_ok_reversed:
  assumes "placements_ok n gs" and "\<forall>x \<in> set gs. fst (fst x) < nm"
  shows "placements_ok n (map (\<lambda>((T, k), g). ((nm - T - 1, k), g)) gs)"
  using assms
proof (induction gs)
  case Nil
  then show ?case by simp
next
  case (Cons x gs)
  obtain T k g where x: "x = ((T, k), g)" by (cases x) auto
  have "(nm - T - 1, A) \<notin> (\<lambda>(T, A). (nm - T - 1, A)) ` slots gs" if "(T, A) \<notin> slots gs" for A
    using that by auto
  with Cons show ?case
    by (auto simp: x slots_reversed simp del: One_nat_def)
qed

lemma placements_ok_mem:
  "placements_ok n gs \<Longrightarrow> ((T, k), g) \<in> set gs \<Longrightarrow>
     0 \<le> T \<and> k \<noteq> [] \<and> int (length k) = gate_N g \<and> (\<forall>A \<in> set k. A < n)"
  by (induction gs) auto

lemma sorted_le_last:
  fixes x :: "'a::linorder"
  shows "sorted xs \<Longrightarrow> x \<in> set xs \<Longrightarrow> x \<le> last xs"
  by (induction xs) auto

lemma moments_below_nmoment:
  assumes "circuit_inv c" and "x \<in> set (gates c)"
  shows "fst (fst x) < nmoment c"
proof -
  from assms have mem: "fst (fst x) \<in> set (Ts c)"
    by (auto simp: circuit_inv_def)
  have "sorted (Ts c)" using assms(1) by (simp add: circuit_inv_def)
  then have "fst (fst x) \<le> last (Ts c)"
    using mem by (simp add: sorted_le_last)
  with mem show ?thesis by (auto simp: nmoment_def)
qed

lemma nmoment_reversed:
  assumes "circuit_inv c" and "circuit_inv c1"
    and g1: "gates c1 = map (\<lambda>((T, k), g). ((nmoment c - T - 1, k), g)) (gates c)"
    and zero: "((0, k0), g0) \<in> set (gates c)"
  shows "nmoment c1 = nmoment c"
proof -
  have Ts1: "set (Ts c1) = (\<lambda>x. nmoment c - fst (fst x) - 1) ` set (gates c)"
    using assms(2) by (auto simp: circuit_inv_def g1 image_image split: prod.splits) force+
  have sorted1: "sorted (Ts c1)" using assms(2) by (simp add: circuit_inv_def)
  have ne: "Ts c1 \<noteq> []" using Ts1 zero by auto
  have top: "nmoment c - 1 \<in> set (Ts c1)"
    using Ts1 zero by force
  then have "nmoment c - 1 \<le> last (Ts c1)"
    using sorted1 by (simp add: sorted_le_last)
  moreover have "last (Ts c1) \<le> nmoment c - 1"
  proof -
    have "last (Ts c1) \<in> set (Ts c1)" using ne by simp
    then obtain x where x: "x \<in> set (gates c)" "last (Ts c1) = nmoment c - fst (fst x) - 1"
      using Ts1 by auto
    obtain T k g where xk: "x = ((T, k), g)" by (cases x) auto
    have "placements_ok (circ_N c) (gates c)" using assms(1) by (simp add: circuit_inv_def)
    with x(1) xk have "0 \<le> T"
      using placements_ok_mem by blast
    with x(2) xk show ?thesis by simp
  qed
  ultimately show ?thesis using ne by (simp add: nmoment_def)
qed


lemma reversed_ok:
  assumes "circuit_inv c"
  shows "\<exists>c1. reversed c = Inr c1 \<and> circuit_inv c1 \<and> circ_N c1 = circ_N c
            \<and> gates c1 = map (\<lambda>((T, k), g). ((nmoment c - T - 1, k), g)) (gates c)"
proof -
  from assms have n: "0 < circ_N c" and ok: "placements_ok (circ_N c) (gates c)"
    by (simp_all add: circuit_inv_def)
  define circ where "circ = \<lparr>circ_N = circ_N c, gates = [], Ts = [], TAs = {}\<rparr>"
  have init: "Circuit_init (circ_N c) = Inr circ"
    using n by (simp add: Circuit_init_def circ_def)
  have inv0: "circuit_inv circ"
    using init by (rule circuit_inv_init)
  have "placements_ok (circ_N c) (map (\<lambda>((T, k), g). ((nmoment c - T - 1, k), g)) (gates c))"
    using ok moments_below_nmoment [OF assms] by (intro placements_ok_reversed) auto
  then have "placements_ok (circ_N circ)
      (gates circ @ map (\<lambda>((T, k), g). ((nmoment c - T - 1, k), g)) (gates c))"
    by (simp add: circ_def)
  from reversed_loop_ok [OF inv0 this] show ?thesis
    by (simp add: reversed_def init) (simp add: circ_def)
qed

text \<open>
  C5. For every circuit, \<^verbatim>\<open>reversed()\<close> returns the circuit with the same gates in the same
  order, each gate object as it is (its unitary is neither inverted nor
  conjugate-transposed), at the moment \<open>nmoment - 1 - T\<close> instead of \<open>T\<close>; and when the
  circuit has a gate at moment 0, \<^verbatim>\<open>reversed()\<close> of the result is the original circuit:
  every gate is back at its placement.
\<close>

theorem reversed_relabels_and_twice_restores:
  assumes "circuit_inv c"
  shows "\<exists>c1. reversed c = Inr c1 \<and> circ_N c1 = circ_N c
          \<and> gates c1 = map (\<lambda>((T, k), g). ((nmoment c - T - 1, k), g)) (gates c)
          \<and> ((\<exists>k g. ((0, k), g) \<in> set (gates c)) \<longrightarrow> reversed c1 = Inr c)"
proof -
  from reversed_ok [OF assms] obtain c1 where
    c1: "reversed c = Inr c1" "circuit_inv c1" "circ_N c1 = circ_N c"
      "gates c1 = map (\<lambda>((T, k), g). ((nmoment c - T - 1, k), g)) (gates c)"
    by auto
  have "reversed c1 = Inr c" if "((0, k), g) \<in> set (gates c)" for k g
  proof -
    from reversed_ok [OF c1(2)] obtain c2 where
      c2: "reversed c1 = Inr c2" "circuit_inv c2" "circ_N c2 = circ_N c1"
        "gates c2 = map (\<lambda>((T, k), g). ((nmoment c1 - T - 1, k), g)) (gates c1)"
      by auto
    have nm: "nmoment c1 = nmoment c"
      using assms c1(2,4) that by (rule nmoment_reversed)
    have "gates c2 = gates c"
      by (simp add: c2(4) c1(4) nm comp_def case_prod_unfold)
    with assms c2 c1(3) have "c2 = c"
      by (intro circuit_inv_eqI) simp_all
    with c2(1) show ?thesis by simp
  qed
  with c1 show ?thesis by blast
qed


theorem reversed_relabels_and_twice_restores_witness:
  "circuit_inv \<lparr>circ_N = 2, gates = [((0, [0]), Gate_H), ((2, [0, 1]), Gate_CNOT)],
                 Ts = [0, 2], TAs = {(0, 0), (2, 0), (2, 1)}\<rparr>
   \<and> (\<exists>c1. reversed \<lparr>circ_N = 2, gates = [((0, [0]), Gate_H), ((2, [0, 1]), Gate_CNOT)],
                        Ts = [0, 2], TAs = {(0, 0), (2, 0), (2, 1)}\<rparr> = Inr c1
          \<and> gates c1 = [((2, [0]), Gate_H), ((0, [0, 1]), Gate_CNOT)]
          \<and> reversed c1 = Inr \<lparr>circ_N = 2, gates = [((0, [0]), Gate_H), ((2, [0, 1]), Gate_CNOT)],
                                 Ts = [0, 2], TAs = {(0, 0), (2, 0), (2, 1)}\<rparr>)"
proof -
  let ?c = "\<lparr>circ_N = 2, gates = [((0, [0]), Gate_H), ((2, [0, 1]), Gate_CNOT)],
             Ts = [0, 2], TAs = {(0, 0), (2, 0), (2, 1)}\<rparr>"
  have inv: "circuit_inv ?c"
    by (auto simp: circuit_inv_def slots_def Gate_H_def Gate_CNOT_def)
  have nm: "nmoment ?c = 3"
    by (simp add: nmoment_def)
  from reversed_relabels_and_twice_restores [OF inv] obtain c1 where
    "reversed ?c = Inr c1"
    "gates c1 = map (\<lambda>((T, k), g). ((nmoment ?c - T - 1, k), g)) (gates ?c)"
    "(\<exists>k g. ((0, k), g) \<in> set (gates ?c)) \<longrightarrow> reversed c1 = Inr ?c"
    by blast
  moreover have "\<exists>k g. ((0, k), g) \<in> set (gates ?c)"
    by auto
  ultimately have "reversed ?c = Inr c1 \<and> gates c1 = [((2, [0]), Gate_H), ((0, [0, 1]), Gate_CNOT)]
      \<and> reversed c1 = Inr ?c"
    by (simp add: nm)
  with inv show ?thesis by blast
qed


subsection \<open>The order of the parameter keys\<close>

lemma mset_concat_map_cong:
  assumes "mset gs = mset gs'"
  shows "mset (concat (map h gs)) = mset (concat (map h gs'))"
proof -
  have "mset (concat (map h xs)) = (\<Sum>x\<in>#mset xs. mset (h x))" for xs
    by (induction xs) simp_all
  with assms show ?thesis by simp
qed

lemma concat_map_single_key:
  assumes "distinct (map fst gs)"
  shows "concat (map (\<lambda>e. if fst e = kk then h e else []) gs)
         = (case map_of gs kk of None \<Rightarrow> [] | Some g \<Rightarrow> h (kk, g))"
  using assms
proof (induction gs)
  case Nil
  then show ?case by simp
next
  case (Cons e gs)
  obtain k g where e: "e = (k, g)" by (cases e) auto
  show ?case
  proof (cases "k = kk")
    case True
    with Cons.prems e have "kk \<notin> fst ` set gs" by auto
    then have none: "map_of gs kk = None" by (simp add: map_of_eq_None_iff)
    have "concat (map (\<lambda>e. if fst e = kk then h e else []) gs) = []"
      using Cons.IH Cons.prems none by simp
    with True e show ?thesis by simp
  next
    case False
    with Cons e show ?thesis by simp
  qed
qed

lemma filter_gate_param_keys:
  "filter (\<lambda>y. (fst y, fst (snd y)) = kk) (gate_param_keys e)
   = (if fst e = kk then gate_param_keys e else [])"
  by (cases e) (auto simp: gate_param_keys_def filter_empty_conv split: prod.splits)

lemma filter_param_list:
  assumes "distinct (map fst gs)"
  shows "filter (\<lambda>y. (fst y, fst (snd y)) = kk) (concat (map gate_param_keys gs))
         = (case map_of gs kk of None \<Rightarrow> [] | Some g \<Rightarrow> gate_param_keys (kk, g))"
  using concat_map_single_key [OF assms, of kk gate_param_keys]
  by (simp add: filter_concat comp_def filter_gate_param_keys)

text \<open>
  C6. \<^verbatim>\<open>param_keys\<close> lists the triples (moment, qubit tuple, parameter name) of all
  parameters of all gates, sorted by (moment, qubit tuple); and two circuits with the
  same gate placements, whatever the order in which the gates were added, have the same
  \<^verbatim>\<open>param_keys\<close>.
\<close>

theorem param_keys_canonical:
  "sorted (map (\<lambda>x. (fst x, fst (snd x))) (param_keys c))
   \<and> set (param_keys c)
       = {(T, key2, name). \<exists>g v. ((T, key2), g) \<in> set (gates c) \<and> (name, v) \<in> set (gate_params g)}
   \<and> (circuit_inv c \<and> circuit_inv c' \<and> set (gates c') = set (gates c)
        \<longrightarrow> param_keys c' = param_keys c)"
proof (intro conjI impI)
  show "sorted (map (\<lambda>x. (fst x, fst (snd x))) (param_keys c))"
    by (simp add: param_keys_def)
  show "set (param_keys c)
       = {(T, key2, name). \<exists>g v. ((T, key2), g) \<in> set (gates c) \<and> (name, v) \<in> set (gate_params g)}"
    by (auto simp: param_keys_def gate_param_keys_def) force
next
  assume a: "circuit_inv c \<and> circuit_inv c' \<and> set (gates c') = set (gates c)"
  let ?f = "\<lambda>x :: int \<times> int list \<times> string. (fst x, fst (snd x))"
  from a have d: "distinct (map fst (gates c))" "distinct (map fst (gates c'))"
    by (auto simp: circuit_inv_def intro: placements_ok_distinct_keys)
  then have dd: "distinct (gates c)" "distinct (gates c')"
    by (auto simp: distinct_map)
  with a have ms: "mset (gates c) = mset (gates c')"
    by (simp add: set_eq_iff_mset_eq_distinct)
  from a d have mo: "map_of (gates c') = map_of (gates c)"
    by (simp add: map_of_inject_set)
  have "sort_key ?f (concat (map gate_param_keys (gates c'))) = param_keys c"
  proof (rule properties_for_sort_key)
    show "mset (param_keys c) = mset (concat (map gate_param_keys (gates c')))"
      using mset_concat_map_cong [OF ms, of gate_param_keys] by (simp add: param_keys_def)
    show "sorted (map ?f (param_keys c))"
      by (simp add: param_keys_def)
    fix k assume "k \<in> set (param_keys c)"
    have "filter (\<lambda>y. ?f y = ?f k) (param_keys c)
        = filter (\<lambda>y. ?f y = ?f k) (concat (map gate_param_keys (gates c)))"
      unfolding param_keys_def by (rule sort_key_stable)
    also have "\<dots> = filter (\<lambda>y. ?f y = ?f k) (concat (map gate_param_keys (gates c')))"
      by (simp only: filter_param_list [OF d(1)] filter_param_list [OF d(2)] mo)
    finally show "filter (\<lambda>x. ?f k = ?f x) (param_keys c)
        = filter (\<lambda>x. ?f k = ?f x) (concat (map gate_param_keys (gates c')))"
      by (simp add: eq_commute)
  qed
  then show "param_keys c' = param_keys c"
    by (simp add: param_keys_def)
qed

theorem param_keys_canonical_witness:
  "circuit_inv \<lparr>circ_N = 2, gates = [((1, [0]), Gate_Ry 1), ((0, [1]), Gate_Ry 2)],
                 Ts = [0, 1], TAs = {(1, 0), (0, 1)}\<rparr>
   \<and> circuit_inv \<lparr>circ_N = 2, gates = [((0, [1]), Gate_Ry 2), ((1, [0]), Gate_Ry 1)],
                   Ts = [0, 1], TAs = {(1, 0), (0, 1)}\<rparr>
   \<and> set (gates \<lparr>circ_N = 2, gates = [((0, [1]), Gate_Ry 2), ((1, [0]), Gate_Ry 1)],
                   Ts = [0, 1], TAs = {(1, 0), (0, 1)}\<rparr>)
       = set (gates \<lparr>circ_N = 2, gates = [((1, [0]), Gate_Ry 1), ((0, [1]), Gate_Ry 2)],
                   Ts = [0, 1], TAs = {(1, 0), (0, 1)}\<rparr>)
   \<and> param_keys \<lparr>circ_N = 2, gates = [((0, [1]), Gate_Ry 2), ((1, [0]), Gate_Ry 1)],
                   Ts = [0, 1], TAs = {(1, 0), (0, 1)}\<rparr>
       = param_keys \<lparr>circ_N = 2, gates = [((1, [0]), Gate_Ry 1), ((0, [1]), Gate_Ry 2)],
                   Ts = [0, 1], TAs = {(1, 0), (0, 1)}\<rparr>
   \<and> param_keys \<lparr>circ_N = 2, gates = [((1, [0]), Gate_Ry 1), ((0, [1]), Gate_Ry 2)],
                   Ts = [0, 1], TAs = {(1, 0), (0, 1)}\<rparr>
       = [(0, [1], ''theta''), (1, [0], ''theta'')]"
proof -
  let ?c = "\<lparr>circ_N = 2, gates = [((1, [0]), Gate_Ry 1), ((0, [1]), Gate_Ry 2)],
             Ts = [0, 1], TAs = {(1, 0), (0, 1)}\<rparr>"
  let ?c' = "\<lparr>circ_N = 2, gates = [((0, [1]), Gate_Ry 2), ((1, [0]), Gate_Ry 1)],
             Ts = [0, 1], TAs = {(1, 0), (0, 1)}\<rparr>"
  have inv: "circuit_inv ?c" "circuit_inv ?c'"
    by (auto simp: circuit_inv_def slots_def Gate_Ry_def)
  have same: "set (gates ?c') = set (gates ?c)"
    by auto
  from param_keys_canonical [of ?c ?c'] inv same have eq: "param_keys ?c' = param_keys ?c"
    by blast
  have val: "param_keys ?c = [(0, [1], ''theta''), (1, [0], ''theta'')]"
    by (simp add: param_keys_def gate_param_keys_def Gate_Ry_def)
  from inv same eq val show ?thesis by blast
qed

subsection \<open>The compressor: folding 1-body gates into 2-body gates\<close>

lemma py_index_nonneg: "0 \<le> i \<Longrightarrow> i < int len \<Longrightarrow> py_index len i = Inr (nat i)"
  by (simp add: py_index_def)

lemma plan_get_in_range:
  "0 \<le> A \<Longrightarrow> A < int (length plan) \<Longrightarrow> 0 \<le> T \<Longrightarrow> T < int (length (plan ! nat A)) \<Longrightarrow>
     plan_get plan A T = Inr (plan ! nat A ! nat T)"
  by (simp add: plan_get_def ebind_def py_index_nonneg)

lemma emap_all_Inr:
  "(\<And>x. x \<in> set xs \<Longrightarrow> f x = Inr (g x)) \<Longrightarrow> emap f xs = Inr (map g xs)"
  by (induction xs) auto

lemma py_range_set: "set (py_range a b) = {a..<b}"
proof -
  have "(\<lambda>i. a + int i) ` {0..<nat (b - a)} = {a..<b}"
  proof (intro equalityI subsetI)
    fix x assume "x \<in> (\<lambda>i. a + int i) ` {0..<nat (b - a)}"
    then show "x \<in> {a..<b}" by auto
  next
    fix x assume "x \<in> {a..<b}"
    then have "x = a + int (nat (x - a))" "nat (x - a) \<in> {0..<nat (b - a)}" by auto
    then show "x \<in> (\<lambda>i. a + int i) ` {0..<nat (b - a)}" by (rule image_eqI)
  qed
  then show ?thesis by (simp add: py_range_def)
qed

lemma map_nth_py_range:
  assumes "0 \<le> a" and "a \<le> b" and "b \<le> int (length xs)"
  shows "map (\<lambda>i. xs ! nat i) (py_range a b) = py_slice xs a b"
proof (rule nth_equalityI)
  show "length (map (\<lambda>i. xs ! nat i) (py_range a b)) = length (py_slice xs a b)"
    using assms by (auto simp: py_range_def py_slice_def py_clamp_def)
  fix i assume "i < length (map (\<lambda>i. xs ! nat i) (py_range a b))"
  then have i: "i < nat (b - a)" by (simp add: py_range_def)
  with assms show "map (\<lambda>i. xs ! nat i) (py_range a b) ! i = py_slice xs a b ! i"
    by (simp add: py_range_def py_slice_def py_clamp_def nat_add_distrib)
qed

lemma py_max_le_iff:
  "xs \<noteq> [] \<Longrightarrow> py_max xs \<le> m \<longleftrightarrow> (\<forall>x \<in> set xs. x \<le> m)"
proof -
  have "foldl max a ys \<le> m \<longleftrightarrow> a \<le> m \<and> (\<forall>x \<in> set ys. x \<le> m)" for a :: int and ys
    by (induction ys arbitrary: a) auto
  then show "xs \<noteq> [] \<Longrightarrow> py_max xs \<le> m \<longleftrightarrow> (\<forall>x \<in> set xs. x \<le> m)"
    by (cases xs) (auto simp: py_max_def)
qed

lemma py_max_mem: "xs \<noteq> [] \<Longrightarrow> py_max xs \<in> set xs"
proof -
  have "foldl max a ys \<in> insert a (set ys)" for a :: int and ys
    by (induction ys arbitrary: a) (auto simp: max_def)
  then show "xs \<noteq> [] \<Longrightarrow> py_max xs \<in> set xs"
    by (cases xs) (auto simp: py_max_def)
qed

lemma py_max_abs_eq_1_iff:
  fixes Vs :: "int list"
  assumes "Vs \<noteq> []" and "\<forall>V \<in> set Vs. V \<in> {0, 1, 2, - 2}"
  shows "py_max (map abs Vs) = 1 \<longleftrightarrow> (\<forall>V \<in> set Vs. V \<noteq> 2 \<and> V \<noteq> - 2) \<and> 1 \<in> set Vs"
proof
  assume m: "py_max (map abs Vs) = 1"
  have ne: "map abs Vs \<noteq> []" using assms(1) by simp
  from py_max_le_iff [OF ne, of 1] m have le: "\<forall>V \<in> set Vs. \<bar>V\<bar> \<le> 1" by simp
  from py_max_mem [OF ne] m obtain V where V: "V \<in> set Vs" "\<bar>V\<bar> = 1" by auto
  with assms(2) have "V = 1" by auto
  with V le show "(\<forall>V \<in> set Vs. V \<noteq> 2 \<and> V \<noteq> - 2) \<and> 1 \<in> set Vs" by auto
next
  assume a: "(\<forall>V \<in> set Vs. V \<noteq> 2 \<and> V \<noteq> - 2) \<and> 1 \<in> set Vs"
  have ne: "map abs Vs \<noteq> []" using assms(1) by simp
  from a assms(2) have "\<forall>x \<in> set (map abs Vs). x \<le> 1" by auto
  with py_max_le_iff [OF ne, of 1] have "py_max (map abs Vs) \<le> 1" by simp
  moreover have "1 \<le> py_max (map abs Vs)"
  proof (rule ccontr)
    assume "\<not> 1 \<le> py_max (map abs Vs)"
    then have "py_max (map abs Vs) \<le> 0" by simp
    with py_max_le_iff [OF ne, of 0] have "\<forall>V \<in> set Vs. \<bar>V\<bar> \<le> 0" by simp
    with a show False by auto
  qed
  ultimately show "py_max (map abs Vs) = 1" by simp
qed

lemma map_snd_py_enumerate: "map snd (py_enumerate Vs) = Vs"
  by (simp add: py_enumerate_def)

lemma snd_set_py_enumerate: "snd ` set (py_enumerate Vs) = set Vs"
  using map_snd_py_enumerate [of Vs] set_map [of snd "py_enumerate Vs"] by simp

lemma filter_enumerate_cong:
  fixes Vs :: "int list"
  assumes "\<forall>V \<in> set Vs. V \<noteq> 2 \<and> V \<noteq> - 2" and "\<forall>V \<in> set Vs. V \<in> {0, 1, 2, - 2}"
  shows "filter (\<lambda>(T3, P). P = 1) (py_enumerate Vs) = filter (\<lambda>(T3, P). P \<noteq> 0) (py_enumerate Vs)"
proof (rule filter_cong [OF refl])
  fix x assume "x \<in> set (py_enumerate Vs)"
  then have "snd x \<in> snd ` set (py_enumerate Vs)" by (rule imageI)
  then have "snd x \<in> set Vs" by (simp only: snd_set_py_enumerate)
  with assms show "(case x of (T3, P) \<Rightarrow> P = 1) = (case x of (T3, P) \<Rightarrow> P \<noteq> 0)"
    by (cases x) auto
qed

lemma filter_enumerate_Nil_iff:
  "filter (\<lambda>(T3, P). Q P) (py_enumerate Vs) = [] \<longleftrightarrow> (\<forall>V \<in> set Vs. \<not> Q V)"
proof -
  have "(\<forall>x \<in> set (py_enumerate Vs). \<not> Q (snd x))
      \<longleftrightarrow> (\<forall>V \<in> snd ` set (py_enumerate Vs). \<not> Q V)"
    by blast
  then show ?thesis
    by (simp add: filter_empty_conv case_prod_unfold snd_set_py_enumerate)
qed


lemma set_py_slice_subset: "set (py_slice xs a b) \<subseteq> set xs"
  unfolding py_slice_def using set_drop_subset set_take_subset by fast

lemma right_scan_char:
  assumes A: "0 \<le> A" "A < int (length plan)" and T: "0 \<le> T"
    and len: "length (plan ! nat A) = nat nm"
    and vals: "\<forall>V \<in> set (plan ! nat A). V \<in> {0, 1, 2, - 2}"
  shows "right_scan plan A T nm
         = Inr (if \<exists>V \<in> set (py_slice (plan ! nat A) (T + 1) nm). V = 2 \<or> V = - 2 then None
                else spec_following_1body plan A T nm)"
proof (cases "T + 1 < nm")
  case False
  with T len have "py_slice (plan ! nat A) (T + 1) nm = []"
    by (simp add: py_slice_def py_clamp_def)
  with False show ?thesis
    by (simp add: right_scan_def spec_following_1body_def py_enumerate_def)
next
  case True
  define Vs where "Vs = py_slice (plan ! nat A) (T + 1) nm"
  have get: "plan_get plan A T2 = Inr (plan ! nat A ! nat T2)" if "T2 \<in> set (py_range (T + 1) nm)" for T2
    using that A T len by (intro plan_get_in_range) (auto simp: py_range_set)
  have em: "emap (\<lambda>T2. plan_get plan A T2) (py_range (T + 1) nm) = Inr Vs"
    using emap_all_Inr [of "py_range (T + 1) nm" "\<lambda>T2. plan_get plan A T2" "\<lambda>T2. plan ! nat A ! nat T2", OF get]
      map_nth_py_range [of "T + 1" nm "plan ! nat A"] T True len
    by (simp add: Vs_def)
  have ne: "Vs \<noteq> []"
    using True T len by (simp add: Vs_def py_slice_def py_clamp_def)
  have vs: "\<forall>V \<in> set Vs. V \<in> {0, 1, 2, - 2}"
    using vals set_py_slice_subset [of "plan ! nat A" "T + 1" nm] unfolding Vs_def by blast
  have ix: "py_index (length plan) A = Inr (nat A)"
    using A by (rule py_index_nonneg)
  show ?thesis
  proof (cases "\<exists>V \<in> set Vs. V = 2 \<or> V = - 2")
    case two: True
    then have "py_max (map abs Vs) \<noteq> 1"
      using py_max_abs_eq_1_iff [OF ne vs] by blast
    with two True em show ?thesis
      by (simp add: right_scan_def ebind_def Vs_def)
  next
    case no2: False
    then have n2: "\<forall>V \<in> set Vs. V \<noteq> 2 \<and> V \<noteq> - 2" by blast
    have feq: "filter (\<lambda>(T3, P). P = 1) (py_enumerate Vs) = filter (\<lambda>(T3, P). P \<noteq> 0) (py_enumerate Vs)"
      using n2 vs by (rule filter_enumerate_cong)
    show ?thesis
    proof (cases "1 \<in> set Vs")
      case one: True
      then have m: "py_max (map abs Vs) = 1"
        using py_max_abs_eq_1_iff [OF ne vs] n2 by blast
      from one have "filter (\<lambda>(T3, P). P = 1) (py_enumerate Vs) \<noteq> []"
        using filter_enumerate_Nil_iff [of "\<lambda>P. P = 1" Vs] by blast
      then obtain T3 P rest where hd: "filter (\<lambda>(T3, P). P = 1) (py_enumerate Vs) = (T3, P) # rest"
        by (cases "filter (\<lambda>(T3, P). P = 1) (py_enumerate Vs)") auto
      then have "(T3, P) \<in> set (filter (\<lambda>(T3, P). P = 1) (py_enumerate Vs))" by simp
      then have P: "P = 1" by simp
      from hd feq have hd': "filter (\<lambda>(T3, P). P \<noteq> 0) (py_enumerate Vs) = (T3, P) # rest" by simp
      have "right_scan plan A T nm = Inr (Some (T3 + T + 1))"
        using True em m ix hd by (simp add: right_scan_def ebind_def Vs_def [symmetric])
      moreover have "spec_following_1body plan A T nm = Some (T3 + T + 1)"
        using hd' P by (simp add: spec_following_1body_def Vs_def [symmetric])
      ultimately show ?thesis using no2 by (simp add: Vs_def)
    next
      case none: False
      then have m: "py_max (map abs Vs) \<noteq> 1"
        using py_max_abs_eq_1_iff [OF ne vs] by blast
      from none n2 vs have "\<forall>V \<in> set Vs. \<not> V \<noteq> 0" by auto
      then have "filter (\<lambda>(T3, P). P \<noteq> 0) (py_enumerate Vs) = []"
        using filter_enumerate_Nil_iff [of "\<lambda>P. P \<noteq> 0" Vs] by blast
      then have "spec_following_1body plan A T nm = None"
        by (simp add: spec_following_1body_def Vs_def [symmetric])
      moreover have "right_scan plan A T nm = Inr None"
        using True em m by (simp add: right_scan_def ebind_def)
      ultimately show ?thesis using no2 by (simp add: Vs_def)
    qed
  qed
qed


lemma plan_set_shape:
  assumes "plan_set plan A T v = Inr plan'" and "v \<in> {0, 1, 2, - 2}"
    and "length plan = n" and "\<forall>row \<in> set plan. length row = m \<and> (\<forall>V \<in> set row. V \<in> {0, 1, 2, - 2})"
  shows "length plan' = n \<and> (\<forall>row \<in> set plan'. length row = m \<and> (\<forall>V \<in> set row. V \<in> {0, 1, 2, - 2}))"
proof -
  from assms(1) obtain a t where a: "py_index (length plan) A = Inr a"
    and t: "py_index (length (plan ! a)) T = Inr t"
    and p: "plan' = plan[a := (plan ! a)[t := v]]"
    by (auto simp: plan_set_def ebind_def split: sum.splits)
  from a have "a < length plan" by (auto simp: py_index_def split: if_splits)
  then have row: "plan ! a \<in> set plan" by simp
  have "set ((plan ! a)[t := v]) \<subseteq> insert v (set (plan ! a))"
    by (rule set_update_subset_insert)
  with row assms(2,4) have new: "length ((plan ! a)[t := v]) = m
      \<and> (\<forall>V \<in> set ((plan ! a)[t := v]). V \<in> {0, 1, 2, - 2})"
    by auto
  have "set plan' \<subseteq> insert ((plan ! a)[t := v]) (set plan)"
    unfolding p by (rule set_update_subset_insert)
  with new assms(3,4) show ?thesis by (auto simp: p)
qed

lemma make_plan_loop_shape:
  assumes "make_plan_loop gs plan = Inr plan'" and "length plan = n"
    and "\<forall>row \<in> set plan. length row = m \<and> (\<forall>V \<in> set row. V \<in> {0, 1, 2, - 2})"
  shows "length plan' = n \<and> (\<forall>row \<in> set plan'. length row = m \<and> (\<forall>V \<in> set row. V \<in> {0, 1, 2, - 2}))"
  using assms
proof (induction gs plan rule: make_plan_loop.induct)
  case (1 plan)
  then show ?case by simp
next
  case (2 T key2 g rest plan)
  show ?case
  proof (cases "gate_N g = 1")
    case True
    with "2.prems"(1) obtain A plan1 where k: "key2 = [A]" and s: "plan_set plan A T 1 = Inr plan1"
      and r: "make_plan_loop rest plan1 = Inr plan'"
      by (auto split: list.splits sum.splits)
    from plan_set_shape [OF s _ "2.prems"(2,3)] have sh: "length plan1 = n"
      "\<forall>row \<in> set plan1. length row = m \<and> (\<forall>V \<in> set row. V \<in> {0, 1, 2, - 2})" by auto
    from "2.IH"(1) [OF True k refl s r sh] show ?thesis .
  next
    case False
    with "2.prems"(1) have two: "gate_N g = 2" by (auto split: if_splits)
    with False "2.prems"(1) obtain A B plan1 plan2 where k: "key2 = [A, B]"
      and s1: "plan_set plan A T 2 = Inr plan1" and s2: "plan_set plan1 B T (- 2) = Inr plan2"
      and r: "make_plan_loop rest plan2 = Inr plan'"
      by (auto simp: ebind_def split: list.splits sum.splits)
    from plan_set_shape [OF s1 _ "2.prems"(2,3)] have sh1: "length plan1 = n"
      "\<forall>row \<in> set plan1. length row = m \<and> (\<forall>V \<in> set row. V \<in> {0, 1, 2, - 2})" by auto
    from plan_set_shape [OF s2 _ sh1] have sh2: "length plan2 = n"
      "\<forall>row \<in> set plan2. length row = m \<and> (\<forall>V \<in> set row. V \<in> {0, 1, 2, - 2})" by auto
    have e: "ebind (plan_set plan A T 2) (\<lambda>plan1. plan_set plan1 B T (- 2)) = Inr plan2"
      by (simp add: ebind_def s1 s2)
    from "2.IH"(2) [OF False two k refl refl e r sh2] show ?thesis .
  qed
qed

lemma make_plan_shape:
  assumes "make_plan n nm gs = Inr plan"
  shows "length plan = nat n
       \<and> (\<forall>row \<in> set plan. length row = nat nm \<and> (\<forall>V \<in> set row. V \<in> {0, 1, 2, - 2}))"
  using make_plan_loop_shape [OF assms [unfolded make_plan_def], of "nat n" "nat nm"] by simp


lemma add_gate_r_keys:
  assumes "add_gate_r circ T k g = Inr circ'"
  shows "fst ` set (gates circ') = insert (T, k) (fst ` set (gates circ))"
proof -
  from assms have "gates circ' = dict_set (gates circ) (T, k) g"
    by (auto simp: add_gate_r_def add_gate_def Let_def split: if_splits option.splits)
  then show ?thesis
    by (force simp: dict_set_def split: if_splits)
qed

lemma fold_left_keys:
  assumes "fold_left gs1 kr A hit (U, js) = Inr (U', js')"
  shows "js' = js @ map (\<lambda>T2. (T2, [A])) (case hit of None \<Rightarrow> [] | Some T2 \<Rightarrow> [T2])"
  using assms by (auto simp: fold_left_def ebind_def split: option.splits sum.splits)

lemma fold_right_keys:
  assumes "fold_right gs1 kr A hit (U, js) = Inr (U', js')"
  shows "js' = js @ map (\<lambda>T2. (T2, [A])) (case hit of None \<Rightarrow> [] | Some T2 \<Rightarrow> [T2])"
  using assms by (auto simp: fold_right_def ebind_def split: option.splits sum.splits)

text \<open>What a successful run of the body for one 2-body gate has done.\<close>

lemma jam_one_Inr:
  assumes "jam_one gs1 plan nm T A B U = Inr (U', js)"
  obtains hA hB hA' hB' U1 U2 U3 js1 js2 js3 where
    "left_scan plan A (rev (py_range 0 T)) = Inr hA"
    "fold_left gs1 kron_first A hA (U, []) = Inr (U1, js1)"
    "left_scan plan B (rev (py_range 0 T)) = Inr hB"
    "fold_left gs1 kron_second B hB (U1, js1) = Inr (U2, js2)"
    "right_scan plan A T nm = Inr hA'"
    "fold_right gs1 kron_first A hA' (U2, js2) = Inr (U3, js3)"
    "right_scan plan B T nm = Inr hB'"
    "fold_right gs1 kron_second B hB' (U3, js3) = Inr (U', js)"
  using assms unfolding jam_one_def ebind_def
  by (auto split: sum.splits)

lemma jam_one_keys:
  assumes "jam_one gs1 plan nm T A B U = Inr (U', js)"
  shows "(\<forall>k \<in> set js. length (snd k) = 1)
       \<and> (\<forall>T2. right_scan plan A T nm = Inr (Some T2) \<longrightarrow> (T2, [A]) \<in> set js)
       \<and> (\<forall>T2. right_scan plan B T nm = Inr (Some T2) \<longrightarrow> (T2, [B]) \<in> set js)"
proof -
  from assms obtain hA hB hA' hB' U1 U2 U3 js1 js2 js3 where
    f: "fold_left gs1 kron_first A hA (U, []) = Inr (U1, js1)"
      "fold_left gs1 kron_second B hB (U1, js1) = Inr (U2, js2)"
      "right_scan plan A T nm = Inr hA'"
      "fold_right gs1 kron_first A hA' (U2, js2) = Inr (U3, js3)"
      "right_scan plan B T nm = Inr hB'"
      "fold_right gs1 kron_second B hB' (U3, js3) = Inr (U', js)"
    by (rule jam_one_Inr)
  from fold_left_keys [OF f(1)] fold_left_keys [OF f(2)] fold_right_keys [OF f(4)]
    fold_right_keys [OF f(6)] f(3,5)
  show ?thesis by (auto split: option.splits)
qed

lemma jam_loop_keys:
  assumes "jam_loop gs1 plan nm gs jammed circ = Inr (jammed', circ')"
    and "\<forall>k \<in> set jammed. length (snd k) = 1"
    and "\<forall>k \<in> fst ` set (gates circ). length (snd k) = 2"
  shows "(\<forall>k \<in> set jammed'. length (snd k) = 1)
       \<and> (\<forall>k \<in> fst ` set (gates circ'). length (snd k) = 2)
       \<and> set jammed \<subseteq> set jammed'
       \<and> (\<forall>T A B g. ((T, [A, B]), g) \<in> set gs \<and> gate_N g = 2 \<longrightarrow>
            (\<exists>U' js. jam_one gs1 plan nm T A B (gate_U g) = Inr (U', js) \<and> set js \<subseteq> set jammed'))"
  using assms
proof (induction gs arbitrary: jammed circ)
  case Nil
  then show ?case by auto
next
  case (Cons x gs)
  obtain T key2 g where x: "x = ((T, key2), g)" by (cases x) auto
  show ?case
  proof (cases "gate_N g = 2")
    case False
    with Cons.prems x have "jam_loop gs1 plan nm gs jammed circ = Inr (jammed', circ')" by simp
    from Cons.IH [OF this Cons.prems(2,3)] False x show ?thesis by auto
  next
    case True
    with Cons.prems(1) x obtain A B U js g2 circ1 where k: "key2 = [A, B]"
      and j: "jam_one gs1 plan nm T A B (gate_U g) = Inr (U, js)"
      and a: "add_gate_r circ T key2 g2 = Inr circ1"
      and r: "jam_loop gs1 plan nm gs (jammed @ js) circ1 = Inr (jammed', circ')"
      by (auto simp: ebind_def split: list.splits sum.splits prod.splits)
    from jam_one_keys [OF j] Cons.prems(2) have j1: "\<forall>k \<in> set (jammed @ js). length (snd k) = 1"
      by auto
    from add_gate_r_keys [OF a] Cons.prems(3) k
    have c1: "\<forall>k \<in> fst ` set (gates circ1). length (snd k) = 2" by auto
    from Cons.IH [OF r j1 c1] have ih: "\<forall>k \<in> set jammed'. length (snd k) = 1"
      "\<forall>k \<in> fst ` set (gates circ'). length (snd k) = 2" "set (jammed @ js) \<subseteq> set jammed'"
      "\<forall>T A B g. ((T, [A, B]), g) \<in> set gs \<and> gate_N g = 2 \<longrightarrow>
            (\<exists>U' js. jam_one gs1 plan nm T A B (gate_U g) = Inr (U', js) \<and> set js \<subseteq> set jammed')"
      by auto
    from ih(3) j have here: "\<exists>U' js. jam_one gs1 plan nm T A B (gate_U g) = Inr (U', js)
        \<and> set js \<subseteq> set jammed'" by auto
    show ?thesis
      using ih here x k by auto
  qed
qed

lemma unjammed_loop_keys:
  assumes "unjammed_loop gs jammed circ = Inr circ'"
  shows "fst ` set (gates circ') \<subseteq> fst ` set (gates circ) \<union> {k. k \<notin> set jammed}"
  using assms
proof (induction gs arbitrary: circ)
  case Nil
  then show ?case by auto
next
  case (Cons x gs)
  obtain T key2 g where x: "x = ((T, key2), g)" by (cases x) auto
  show ?case
  proof (cases "gate_N g = 1 \<and> (T, key2) \<notin> set jammed")
    case False
    with Cons.prems x have "unjammed_loop gs jammed circ = Inr circ'"
      by (auto split: if_splits)
    from Cons.IH [OF this] show ?thesis .
  next
    case True
    with Cons.prems x obtain circ1 where a: "add_gate_r circ T key2 g = Inr circ1"
      and r: "unjammed_loop gs jammed circ1 = Inr circ'"
      by (auto split: sum.splits)
    from Cons.IH [OF r] add_gate_r_keys [OF a] True show ?thesis by auto
  qed
qed


lemma add_gate_r_appends:
  assumes inv: "circuit_inv c" and pos: "0 < gate_N g" and ok: "add_gate_r c T k g = Inr c'"
  shows "circuit_inv c' \<and> gates c' = gates c @ [((T, k), g)]"
proof -
  from ok have ag: "add_gate c T (KTuple k) g = (None, c')"
    by (auto simp: add_gate_r_def split: prod.splits option.splits)
  then have T: "0 \<le> T" and len: "int (length k) = gate_N g" and op: "check_open c T k = None"
    by (auto simp: add_gate_def Let_def split: if_splits option.splits)
  from inv have TAs: "TAs c = slots (gates c)" by (simp add: circuit_inv_def)
  from len pos have ne: "k \<noteq> []" by auto
  have "placements_ok (circ_N c) (gates c @ [((T, k), g)])"
    using inv T len ne op
    by (auto simp: placements_ok_append circuit_inv_def check_open_None_iff)
  from add_gate_r_inv [OF inv this] ok show ?thesis by auto
qed

lemma Gate_U2_Inr: "Gate_U2 U = Inr g2 \<Longrightarrow> gate_N g2 = 2 \<and> gate_U g2 = U"
  by (auto simp: Gate_U2_def Gate_init_def gate_U_def split: if_splits)

lemma fold_left_char:
  assumes "fold_left gs1 kr A hit (U, js) = Inr (U', js')"
  shows "case hit of None \<Rightarrow> U' = U
         | Some T2 \<Rightarrow> \<exists>gate1. map_of gs1 (T2, [A]) = Some gate1
                        \<and> np_dot U (kr (gate_U gate1)) = Inr U'"
  using assms
  by (auto simp: fold_left_def ebind_def dict_get_def split: option.splits sum.splits)

lemma fold_right_char:
  assumes "fold_right gs1 kr A hit (U, js) = Inr (U', js')"
  shows "case hit of None \<Rightarrow> U' = U
         | Some T2 \<Rightarrow> \<exists>gate1. map_of gs1 (T2, [A]) = Some gate1
                        \<and> np_dot (kr (gate_U gate1)) U = Inr U'"
  using assms
  by (auto simp: fold_right_def ebind_def dict_get_def split: option.splits sum.splits)

lemma jam_one_all_keys:
  assumes "jam_one gs1 plan nm T A B U = Inr (U', js)"
  shows "(\<forall>T2. left_scan plan A (rev (py_range 0 T)) = Inr (Some T2) \<longrightarrow> (T2, [A]) \<in> set js)
       \<and> (\<forall>T2. left_scan plan B (rev (py_range 0 T)) = Inr (Some T2) \<longrightarrow> (T2, [B]) \<in> set js)
       \<and> (\<forall>T2. right_scan plan A T nm = Inr (Some T2) \<longrightarrow> (T2, [A]) \<in> set js)
       \<and> (\<forall>T2. right_scan plan B T nm = Inr (Some T2) \<longrightarrow> (T2, [B]) \<in> set js)"
proof -
  from assms obtain hA hB hA' hB' U1 U2 U3 js1 js2 js3 where
    f: "left_scan plan A (rev (py_range 0 T)) = Inr hA"
      "fold_left gs1 kron_first A hA (U, []) = Inr (U1, js1)"
      "left_scan plan B (rev (py_range 0 T)) = Inr hB"
      "fold_left gs1 kron_second B hB (U1, js1) = Inr (U2, js2)"
      "right_scan plan A T nm = Inr hA'"
      "fold_right gs1 kron_first A hA' (U2, js2) = Inr (U3, js3)"
      "right_scan plan B T nm = Inr hB'"
      "fold_right gs1 kron_second B hB' (U3, js3) = Inr (U', js)"
    by (rule jam_one_Inr)
  from fold_left_keys [OF f(2)] fold_left_keys [OF f(4)] fold_right_keys [OF f(6)]
    fold_right_keys [OF f(8)] f(1,3,5,7)
  show ?thesis by (auto split: option.splits)
qed

lemma jam_loop_gates:
  assumes "jam_loop gs1 plan nm gs jammed circ = Inr (jammed', circ')" and "circuit_inv circ"
  shows "circuit_inv circ' \<and> set (gates circ) \<subseteq> set (gates circ')
       \<and> (\<forall>T A B g. ((T, [A, B]), g) \<in> set gs \<and> gate_N g = 2 \<longrightarrow>
            (\<exists>U' js g2. jam_one gs1 plan nm T A B (gate_U g) = Inr (U', js)
               \<and> Gate_U2 U' = Inr g2 \<and> ((T, [A, B]), g2) \<in> set (gates circ')))"
  using assms
proof (induction gs arbitrary: jammed circ)
  case Nil
  then show ?case by auto
next
  case (Cons x gs)
  obtain T key2 g where x: "x = ((T, key2), g)" by (cases x) auto
  show ?case
  proof (cases "gate_N g = 2")
    case False
    with Cons.prems x have "jam_loop gs1 plan nm gs jammed circ = Inr (jammed', circ')" by simp
    from Cons.IH [OF this Cons.prems(2)] False x show ?thesis by auto
  next
    case True
    with Cons.prems(1) x obtain A B U js g2 circ1 where k: "key2 = [A, B]"
      and j: "jam_one gs1 plan nm T A B (gate_U g) = Inr (U, js)"
      and g2: "Gate_U2 U = Inr g2"
      and a: "add_gate_r circ T key2 g2 = Inr circ1"
      and r: "jam_loop gs1 plan nm gs (jammed @ js) circ1 = Inr (jammed', circ')"
      by (auto simp: ebind_def split: list.splits sum.splits prod.splits)
    from Gate_U2_Inr [OF g2] have "0 < gate_N g2" by simp
    from add_gate_r_appends [OF Cons.prems(2) this a]
    have c1: "circuit_inv circ1" "gates circ1 = gates circ @ [((T, key2), g2)]" by auto
    from Cons.IH [OF r c1(1)] have ih: "circuit_inv circ'" "set (gates circ1) \<subseteq> set (gates circ')"
      "\<forall>T A B g. ((T, [A, B]), g) \<in> set gs \<and> gate_N g = 2 \<longrightarrow>
            (\<exists>U' js g2. jam_one gs1 plan nm T A B (gate_U g) = Inr (U', js)
               \<and> Gate_U2 U' = Inr g2 \<and> ((T, [A, B]), g2) \<in> set (gates circ'))"
      by auto
    from ih(2) c1(2) have mem: "((T, [A, B]), g2) \<in> set (gates circ')" by (auto simp: k)
    with j g2 have here: "\<exists>U' js g2. jam_one gs1 plan nm T A B (gate_U g) = Inr (U', js)
        \<and> Gate_U2 U' = Inr g2 \<and> ((T, [A, B]), g2) \<in> set (gates circ')" by blast
    have sub: "set (gates circ) \<subseteq> set (gates circ')" using ih(2) c1(2) by auto
    show ?thesis
    proof (intro conjI allI impI)
      show "circuit_inv circ'" by (rule ih(1))
      show "set (gates circ) \<subseteq> set (gates circ')" by (rule sub)
      fix T' A' B' g' assume m: "((T', [A', B']), g') \<in> set (x # gs) \<and> gate_N g' = 2"
      show "\<exists>U' js g2. jam_one gs1 plan nm T' A' B' (gate_U g') = Inr (U', js)
               \<and> Gate_U2 U' = Inr g2 \<and> ((T', [A', B']), g2) \<in> set (gates circ')"
      proof (cases "((T', [A', B']), g') = x")
        case True
        with here show ?thesis by (simp add: x k)
      next
        case False
        with m have "((T', [A', B']), g') \<in> set gs \<and> gate_N g' = 2" by auto
        with ih(3) show ?thesis by blast
      qed
    qed
  qed
qed

lemma unjammed_loop_gates:
  assumes "unjammed_loop gs jammed circ = Inr circ'" and "circuit_inv circ"
  shows "circuit_inv circ' \<and> set (gates circ) \<subseteq> set (gates circ')"
  using assms
proof (induction gs arbitrary: circ)
  case Nil
  then show ?case by auto
next
  case (Cons x gs)
  obtain T key2 g where x: "x = ((T, key2), g)" by (cases x) auto
  show ?case
  proof (cases "gate_N g = 1 \<and> (T, key2) \<notin> set jammed")
    case False
    with Cons.prems x have "unjammed_loop gs jammed circ = Inr circ'"
      by (auto split: if_splits)
    from Cons.IH [OF this Cons.prems(2)] show ?thesis .
  next
    case True
    with Cons.prems x obtain circ1 where a: "add_gate_r circ T key2 g = Inr circ1"
      and r: "unjammed_loop gs jammed circ1 = Inr circ'"
      by (auto split: sum.splits)
    from True have "0 < gate_N g" by simp
    from add_gate_r_appends [OF Cons.prems(2) this a]
    have c1: "circuit_inv circ1" "gates circ1 = gates circ @ [((T, key2), g)]" by auto
    from Cons.IH [OF r c1(1)] c1(2) show ?thesis by auto
  qed
qed

text \<open>
  C4, as the code has it. In step 2, for a 2-body gate \<open>g\<close> at \<open>(T, (A, B))\<close>: the forward
  scan on the row of a qubit returns the nearest following 1-body gate exactly when no
  two-body entry follows at any later moment on that row, and nothing in every other
  case. The gate that the output circuit holds at \<open>(T, (A, B))\<close> is a 2-body gate whose
  matrix is computed from the matrix of \<open>g\<close> in four steps, one for each scan: the gate
  found by the backward scan on \<open>A\<close> and then the one found on \<open>B\<close> is multiplied from the
  right, the gate found by the forward scan on \<open>A\<close> and then the one found on \<open>B\<close> is
  multiplied from the left (the right side of the circuit), each as its Kronecker
  product with the identity on the other qubit; a scan that finds nothing leaves the
  matrix as it is. No gate found by any of the four scans has an entry in the output
  circuit.
\<close>

theorem step2_folds_and_removals:
  assumes "compress_step2 n nm c1 = Inr c2" and "make_plan n nm (gates c1) = Inr plan"
    and "((T, [A, B]), g) \<in> set (gates c1)" and "gate_N g = 2"
    and "0 \<le> T" and "0 \<le> A" and "A < n" and "0 \<le> B" and "B < n"
  shows "right_scan plan A T nm
           = Inr (if \<exists>V \<in> set (py_slice (plan ! nat A) (T + 1) nm). V = 2 \<or> V = - 2 then None
                  else spec_following_1body plan A T nm)
       \<and> right_scan plan B T nm
           = Inr (if \<exists>V \<in> set (py_slice (plan ! nat B) (T + 1) nm). V = 2 \<or> V = - 2 then None
                  else spec_following_1body plan B T nm)
       \<and> (\<exists>hA hB hA' hB' U1 U2 U3 U4 g2.
            left_scan plan A (rev (py_range 0 T)) = Inr hA
          \<and> left_scan plan B (rev (py_range 0 T)) = Inr hB
          \<and> right_scan plan A T nm = Inr hA'
          \<and> right_scan plan B T nm = Inr hB'
          \<and> (case hA of None \<Rightarrow> U1 = gate_U g
              | Some T2 \<Rightarrow> \<exists>gate1. map_of (gates c1) (T2, [A]) = Some gate1
                   \<and> np_dot (gate_U g) (np_kron (gate_U gate1) (np_eye 2)) = Inr U1)
          \<and> (case hB of None \<Rightarrow> U2 = U1
              | Some T2 \<Rightarrow> \<exists>gate1. map_of (gates c1) (T2, [B]) = Some gate1
                   \<and> np_dot U1 (np_kron (np_eye 2) (gate_U gate1)) = Inr U2)
          \<and> (case hA' of None \<Rightarrow> U3 = U2
              | Some T2 \<Rightarrow> \<exists>gate1. map_of (gates c1) (T2, [A]) = Some gate1
                   \<and> np_dot (np_kron (gate_U gate1) (np_eye 2)) U2 = Inr U3)
          \<and> (case hB' of None \<Rightarrow> U4 = U3
              | Some T2 \<Rightarrow> \<exists>gate1. map_of (gates c1) (T2, [B]) = Some gate1
                   \<and> np_dot (np_kron (np_eye 2) (gate_U gate1)) U3 = Inr U4)
          \<and> map_of (gates c2) (T, [A, B]) = Some g2 \<and> gate_N g2 = 2 \<and> gate_U g2 = U4
          \<and> (\<forall>T2. hA = Some T2 \<or> hA' = Some T2 \<longrightarrow> (T2, [A]) \<notin> fst ` set (gates c2))
          \<and> (\<forall>T2. hB = Some T2 \<or> hB' = Some T2 \<longrightarrow> (T2, [B]) \<notin> fst ` set (gates c2)))"
proof -
  from make_plan_shape [OF assms(2)] have len: "length plan = nat n"
    and rows: "\<forall>row \<in> set plan. length row = nat nm \<and> (\<forall>V \<in> set row. V \<in> {0, 1, 2, - 2})"
    by auto
  have rowA: "plan ! nat A \<in> set plan" and rowB: "plan ! nat B \<in> set plan"
    using assms(6-9) len by auto
  have scanA: "right_scan plan A T nm
           = Inr (if \<exists>V \<in> set (py_slice (plan ! nat A) (T + 1) nm). V = 2 \<or> V = - 2 then None
                  else spec_following_1body plan A T nm)"
    using assms(5,6,7) len rows rowA by (intro right_scan_char) auto
  have scanB: "right_scan plan B T nm
           = Inr (if \<exists>V \<in> set (py_slice (plan ! nat B) (T + 1) nm). V = 2 \<or> V = - 2 then None
                  else spec_following_1body plan B T nm)"
    using assms(5,8,9) len rows rowB by (intro right_scan_char) auto
  from assms(1,2) obtain circ0 jammed c2' where
    jl: "jam_loop (gates c1) plan nm (gates c1) [] circ0 = Inr (jammed, c2')"
    and c0: "Circuit_init n = Inr circ0"
    and ul: "unjammed_loop (gates c1) jammed c2' = Inr c2"
    by (auto simp: compress_step2_def ebind_def split: sum.splits prod.splits)
  from c0 have g0: "gates circ0 = []"
    by (auto simp: Circuit_init_def split: if_splits)
  from c0 have i0: "circuit_inv circ0" by (rule circuit_inv_init)
  from jam_loop_keys [OF jl] g0 have j1: "\<forall>k \<in> set jammed. length (snd k) = 1"
    and k2: "\<forall>k \<in> fst ` set (gates c2'). length (snd k) = 2"
    and each: "\<forall>T A B g. ((T, [A, B]), g) \<in> set (gates c1) \<and> gate_N g = 2 \<longrightarrow>
            (\<exists>U' js. jam_one (gates c1) plan nm T A B (gate_U g) = Inr (U', js)
               \<and> set js \<subseteq> set jammed)"
    by auto
  from jam_loop_gates [OF jl i0] have i2': "circuit_inv c2'"
    and placed: "\<forall>T A B g. ((T, [A, B]), g) \<in> set (gates c1) \<and> gate_N g = 2 \<longrightarrow>
            (\<exists>U' js g2. jam_one (gates c1) plan nm T A B (gate_U g) = Inr (U', js)
               \<and> Gate_U2 U' = Inr g2 \<and> ((T, [A, B]), g2) \<in> set (gates c2'))"
    by auto
  from unjammed_loop_gates [OF ul i2'] have i2: "circuit_inv c2"
    and kept: "set (gates c2') \<subseteq> set (gates c2)" by auto
  from placed assms(3,4) obtain U4 js g2 where
    jo: "jam_one (gates c1) plan nm T A B (gate_U g) = Inr (U4, js)"
    and g2: "Gate_U2 U4 = Inr g2" and mem': "((T, [A, B]), g2) \<in> set (gates c2')"
    by blast
  from each assms(3,4) obtain U' js' where
    "jam_one (gates c1) plan nm T A B (gate_U g) = Inr (U', js')" "set js' \<subseteq> set jammed"
    by blast
  with jo have sub: "set js \<subseteq> set jammed" by simp
  have "distinct (map fst (gates c2))"
    using i2 by (auto simp: circuit_inv_def intro: placements_ok_distinct_keys)
  moreover from mem' kept have "((T, [A, B]), g2) \<in> set (gates c2)" by blast
  ultimately have out: "map_of (gates c2) (T, [A, B]) = Some g2" by simp
  have removed: "k \<notin> fst ` set (gates c2)" if "k \<in> set jammed" for k
  proof
    assume "k \<in> fst ` set (gates c2)"
    with unjammed_loop_keys [OF ul] that have "k \<in> fst ` set (gates c2')" by auto
    with k2 have "length (snd k) = 2" by blast
    moreover from j1 that have "length (snd k) = 1" by blast
    ultimately show False by simp
  qed
  from jo obtain hA hB hA' hB' U1 U2 U3 js1 js2 js3 where
    f: "left_scan plan A (rev (py_range 0 T)) = Inr hA"
      "fold_left (gates c1) kron_first A hA (gate_U g, []) = Inr (U1, js1)"
      "left_scan plan B (rev (py_range 0 T)) = Inr hB"
      "fold_left (gates c1) kron_second B hB (U1, js1) = Inr (U2, js2)"
      "right_scan plan A T nm = Inr hA'"
      "fold_right (gates c1) kron_first A hA' (U2, js2) = Inr (U3, js3)"
      "right_scan plan B T nm = Inr hB'"
      "fold_right (gates c1) kron_second B hB' (U3, js3) = Inr (U4, js)"
    by (rule jam_one_Inr)
  note p1 = fold_left_char [OF f(2), unfolded kron_first_def]
  note p2 = fold_left_char [OF f(4), unfolded kron_second_def]
  note p3 = fold_right_char [OF f(6), unfolded kron_first_def]
  note p4 = fold_right_char [OF f(8), unfolded kron_second_def]
  from jam_one_all_keys [OF jo] f(1,3,5,7) sub removed
  have remA: "\<forall>T2. hA = Some T2 \<or> hA' = Some T2 \<longrightarrow> (T2, [A]) \<notin> fst ` set (gates c2)"
    and remB: "\<forall>T2. hB = Some T2 \<or> hB' = Some T2 \<longrightarrow> (T2, [B]) \<notin> fst ` set (gates c2)"
    by blast+
  from Gate_U2_Inr [OF g2] have gg: "gate_N g2 = 2" "gate_U g2 = U4" by simp_all
  have "\<exists>hA hB hA' hB' U1 U2 U3 U4 g2.
            left_scan plan A (rev (py_range 0 T)) = Inr hA
          \<and> left_scan plan B (rev (py_range 0 T)) = Inr hB
          \<and> right_scan plan A T nm = Inr hA'
          \<and> right_scan plan B T nm = Inr hB'
          \<and> (case hA of None \<Rightarrow> U1 = gate_U g
              | Some T2 \<Rightarrow> \<exists>gate1. map_of (gates c1) (T2, [A]) = Some gate1
                   \<and> np_dot (gate_U g) (np_kron (gate_U gate1) (np_eye 2)) = Inr U1)
          \<and> (case hB of None \<Rightarrow> U2 = U1
              | Some T2 \<Rightarrow> \<exists>gate1. map_of (gates c1) (T2, [B]) = Some gate1
                   \<and> np_dot U1 (np_kron (np_eye 2) (gate_U gate1)) = Inr U2)
          \<and> (case hA' of None \<Rightarrow> U3 = U2
              | Some T2 \<Rightarrow> \<exists>gate1. map_of (gates c1) (T2, [A]) = Some gate1
                   \<and> np_dot (np_kron (gate_U gate1) (np_eye 2)) U2 = Inr U3)
          \<and> (case hB' of None \<Rightarrow> U4 = U3
              | Some T2 \<Rightarrow> \<exists>gate1. map_of (gates c1) (T2, [B]) = Some gate1
                   \<and> np_dot (np_kron (np_eye 2) (gate_U gate1)) U3 = Inr U4)
          \<and> map_of (gates c2) (T, [A, B]) = Some g2 \<and> gate_N g2 = 2 \<and> gate_U g2 = U4
          \<and> (\<forall>T2. hA = Some T2 \<or> hA' = Some T2 \<longrightarrow> (T2, [A]) \<notin> fst ` set (gates c2))
          \<and> (\<forall>T2. hB = Some T2 \<or> hB' = Some T2 \<longrightarrow> (T2, [B]) \<notin> fst ` set (gates c2))"
    using f(1,3,5,7) p1 p2 p3 p4 out gg remA remB
    by (intro exI [of _ hA] exI [of _ hB] exI [of _ hA'] exI [of _ hB'] exI [of _ U1]
        exI [of _ U2] exI [of _ U3] exI [of _ U4] exI [of _ g2] conjI)
  with scanA scanB show ?thesis by (intro conjI)
qed


theorem step2_folds_and_removals_witness:
  "\<exists>c2 g2. compress_step2 2 3
           \<lparr>circ_N = 2, gates = [((0, [0]), Gate_X), ((1, [0, 1]), Gate_CNOT), ((2, [1]), Gate_X)],
              Ts = [0, 1, 2], TAs = {(0, 0), (1, 0), (1, 1), (2, 1)}\<rparr> = Inr c2
        \<and> make_plan 2 3 [((0, [0]), Gate_X), ((1, [0, 1]), Gate_CNOT), ((2, [1]), Gate_X)]
              = Inr [[1, 2, 0], [0, - 2, 1]]
        \<and> left_scan [[1, 2, 0], [0, - 2, 1]] 0 (rev (py_range 0 1)) = Inr (Some 0)
        \<and> left_scan [[1, 2, 0], [0, - 2, 1]] 1 (rev (py_range 0 1)) = Inr None
        \<and> right_scan [[1, 2, 0], [0, - 2, 1]] 0 1 3 = Inr None
        \<and> right_scan [[1, 2, 0], [0, - 2, 1]] 1 1 3 = Inr (Some 2)
        \<and> map_of (gates c2) (1, [0, 1]) = Some g2
        \<and> gate_U g2 = [[0, 0, 0, 1], [0, 0, 1, 0], [1, 0, 0, 0], [0, 1, 0, 0]]
        \<and> (0, [0]) \<notin> fst ` set (gates c2) \<and> (2, [1]) \<notin> fst ` set (gates c2)"
proof -
  let ?gs = "[((0, [0]), Gate_X), ((1, [0, 1]), Gate_CNOT), ((2, [1]), Gate_X)]"
  let ?c1 = "\<lparr>circ_N = 2, gates = ?gs, Ts = [0, 1, 2], TAs = {(0, 0), (1, 0), (1, 1), (2, 1)}\<rparr>"
  let ?plan = "[[1, 2, 0], [0, - 2, 1]] :: int list list"
  have "\<not> isl (compress_step2 2 3 ?c1)"
    by code_simp
  then obtain c2 where c2: "compress_step2 2 3 ?c1 = Inr c2"
    by (cases "compress_step2 2 3 ?c1") auto
  have plan: "make_plan 2 3 (gates ?c1) = Inr ?plan"
    by code_simp
  have mem: "((1, [0, 1]), Gate_CNOT) \<in> set (gates ?c1)"
    by simp
  have two: "gate_N Gate_CNOT = 2"
    by (simp add: Gate_CNOT_def)
  have scans: "left_scan ?plan 0 (rev (py_range 0 1)) = Inr (Some 0)"
    "left_scan ?plan 1 (rev (py_range 0 1)) = Inr None"
    "right_scan ?plan 0 1 3 = Inr None"
    "right_scan ?plan 1 1 3 = Inr (Some 2)"
    by code_simp+
  have m1: "np_dot (gate_U Gate_CNOT) (np_kron (gate_U Gate_X) (np_eye 2))
      = Inr [[0, 0, 1, 0], [0, 0, 0, 1], [0, 1, 0, 0], [1, 0, 0, 0]]"
    by code_simp
  have m4: "np_dot (np_kron (np_eye 2) (gate_U Gate_X))
        [[0, 0, 1, 0], [0, 0, 0, 1], [0, 1, 0, 0], [1, 0, 0, 0]]
      = Inr [[0, 0, 0, 1], [0, 0, 1, 0], [1, 0, 0, 0], [0, 1, 0, 0]]"
    by code_simp
  from step2_folds_and_removals [OF c2 plan mem two]
  obtain hA hB hA' hB' U1 U2 U3 U4 g2 where
    h: "left_scan ?plan 0 (rev (py_range 0 1)) = Inr hA"
      "left_scan ?plan 1 (rev (py_range 0 1)) = Inr hB"
      "right_scan ?plan 0 1 3 = Inr hA'"
      "right_scan ?plan 1 1 3 = Inr hB'"
    and u1: "case hA of None \<Rightarrow> U1 = gate_U Gate_CNOT
              | Some T2 \<Rightarrow> \<exists>gate1. map_of (gates ?c1) (T2, [0]) = Some gate1
                   \<and> np_dot (gate_U Gate_CNOT) (np_kron (gate_U gate1) (np_eye 2)) = Inr U1"
    and u2: "case hB of None \<Rightarrow> U2 = U1
              | Some T2 \<Rightarrow> \<exists>gate1. map_of (gates ?c1) (T2, [1]) = Some gate1
                   \<and> np_dot U1 (np_kron (np_eye 2) (gate_U gate1)) = Inr U2"
    and u3: "case hA' of None \<Rightarrow> U3 = U2
              | Some T2 \<Rightarrow> \<exists>gate1. map_of (gates ?c1) (T2, [0]) = Some gate1
                   \<and> np_dot (np_kron (gate_U gate1) (np_eye 2)) U2 = Inr U3"
    and u4: "case hB' of None \<Rightarrow> U4 = U3
              | Some T2 \<Rightarrow> \<exists>gate1. map_of (gates ?c1) (T2, [1]) = Some gate1
                   \<and> np_dot (np_kron (np_eye 2) (gate_U gate1)) U3 = Inr U4"
    and out: "map_of (gates c2) (1, [0, 1]) = Some g2" "gate_U g2 = U4"
    and rem: "\<forall>T2. hA = Some T2 \<or> hA' = Some T2 \<longrightarrow> (T2, [0]) \<notin> fst ` set (gates c2)"
      "\<forall>T2. hB = Some T2 \<or> hB' = Some T2 \<longrightarrow> (T2, [1]) \<notin> fst ` set (gates c2)"
    by auto
  from h scans have hs: "hA = Some 0" "hB = None" "hA' = None" "hB' = Some 2" by simp_all
  from u1 hs(1) m1 have "U1 = [[0, 0, 1, 0], [0, 0, 0, 1], [0, 1, 0, 0], [1, 0, 0, 0]]" by simp
  with u2 u3 hs(2,3) have "U3 = [[0, 0, 1, 0], [0, 0, 0, 1], [0, 1, 0, 0], [1, 0, 0, 0]]" by simp
  with u4 hs(4) m4 have "U4 = [[0, 0, 0, 1], [0, 0, 1, 0], [1, 0, 0, 0], [0, 1, 0, 0]]" by simp
  with out have o: "gate_U g2 = [[0, 0, 0, 1], [0, 0, 1, 0], [1, 0, 0, 0], [0, 1, 0, 0]]" by simp
  from rem hs have r: "(0, [0]) \<notin> fst ` set (gates c2)" "(2, [1]) \<notin> fst ` set (gates c2)"
    by simp_all
  from c2 plan scans out(1) o r show ?thesis
    by (intro exI [of _ c2] exI [of _ g2] conjI) simp_all
qed

text \<open>
  The claim as it was stated fails on the circuit with a CNOT on \<open>(0, 1)\<close> at moment 0, an
  X on qubit 0 at moment 1 and a CNOT on \<open>(0, 2)\<close> at moment 2. On the row of qubit 0 the X
  is the nearest following 1-body gate after moment 0 and nothing lies between; the scan
  of the code returns nothing, the gate at \<open>(0, (0, 1))\<close> keeps the matrix of CNOT (and not
  the product with X on the right side), and the X goes into the later gate on its left
  side.
\<close>

theorem step2_right_fold_counterexample:
  "ebind (compress_step1
            \<lparr>circ_N = 3,
               gates = [((0, [0, 1]), Gate_CNOT), ((1, [0]), Gate_X), ((2, [0, 2]), Gate_CNOT)],
               Ts = [0, 1, 2], TAs = {(0, 0), (0, 1), (1, 0), (2, 0), (2, 2)}\<rparr>)
     (\<lambda>c1. make_plan 3 3 (gates c1)) = Inr [[2, 1, 2], [- 2, 0, 0], [0, 0, - 2]]
   \<and> spec_following_1body [[2, 1, 2], [- 2, 0, 0], [0, 0, - 2]] 0 0 3 = Some 1
   \<and> right_scan [[2, 1, 2], [- 2, 0, 0], [0, 0, - 2]] 0 0 3 = Inr None
   \<and> ebind (compress_step1
            \<lparr>circ_N = 3,
               gates = [((0, [0, 1]), Gate_CNOT), ((1, [0]), Gate_X), ((2, [0, 2]), Gate_CNOT)],
               Ts = [0, 1, 2], TAs = {(0, 0), (0, 1), (1, 0), (2, 0), (2, 2)}\<rparr>)
       (\<lambda>c1. ebind (compress_step2 3 3 c1) (\<lambda>c2. Inr (map (\<lambda>(k, g). (k, gate_U g)) (gates c2))))
     = Inr [((0, [0, 1]), Matrix_CX),
            ((2, [0, 2]), [[0, 0, 1, 0], [0, 0, 0, 1], [0, 1, 0, 0], [1, 0, 0, 0]])]
   \<and> np_dot (kron_first Matrix_X) Matrix_CX
       = Inr [[0, 0, 0, 1], [0, 0, 1, 0], [1, 0, 0, 0], [0, 1, 0, 0]]
   \<and> Matrix_CX \<noteq> [[0, 0, 0, 1], [0, 0, 1, 0], [1, 0, 0, 0], [0, 1, 0, 0]]"
  by code_simp

end
